theory Spec2Isabelle
  imports Complex_Main "HOL-Library.Word" "HOL-Library.Sublist"
begin

section \<open>JavaScript values\<close>

text \<open>
  A JavaScript string is a sequence of 16-bit code units. \<open>js\<close> reads an Isabelle string
  literal as such a sequence, one code unit for each character.
\<close>

type_synonym jsstring = "16 word list"

definition js :: "string \<Rightarrow> jsstring" where
  "js s = map of_char s"

text \<open>
  The values the client handles: \<open>undefined\<close> and what a JSON text denotes. A finite
  number is kept as the decimal by which the runtime writes it: \<open>Number::toString\<close> gives
  every finite binary64 value the shortest decimal that reads back as this value, and
  that decimal, an exact rational, stands for the value. \<open>NaN\<close> and the infinities are no
  values of this type, and negative zero is zero. An object is the list of its own
  properties in the order in which the runtime enumerates them. Functions are not values
  of this type.
\<close>

datatype jsval =
    JUndefined
  | JNull
  | JBool bool
  | JNumber rat
  | JString jsstring
  | JArray "jsval list"
  | JObject "(jsstring \<times> jsval) list"

text \<open>The exceptions of the runtime that the client can meet.\<close>

datatype error = TypeError | SyntaxError

text \<open>
  Reading the property \<open>v.name\<close>. It throws a TypeError on \<open>undefined\<close> and \<open>null\<close>. An
  object answers with its own property; an array and a string have a \<open>length\<close>. The
  program reads the names \<open>args\<close>, \<open>length\<close> and \<open>result\<close> only, which no prototype
  of the runtime defines, so a name that is not an own property reads as \<open>undefined\<close>.
\<close>

fun get_prop :: "jsval \<Rightarrow> jsstring \<Rightarrow> error + jsval" where
  "get_prop JUndefined name = Inl TypeError"
| "get_prop JNull name = Inl TypeError"
| "get_prop (JObject kvs) name =
     Inr (case map_of kvs name of Some v \<Rightarrow> v | None \<Rightarrow> JUndefined)"
| "get_prop (JArray vs) name =
     Inr (if name = js ''length'' then JNumber (of_nat (length vs)) else JUndefined)"
| "get_prop (JString s) name =
     Inr (if name = js ''length'' then JNumber (of_nat (length s)) else JUndefined)"
| "get_prop (JBool b) name = Inr JUndefined"
| "get_prop (JNumber n) name = Inr JUndefined"

section \<open>The method registry (constants.js)\<close>

text \<open>
  The object literal \<open>RPC\<close>: one property for each method, in the order of the source.
  The constants \<open>ARG_TYPE_OPT\<close> and \<open>ARG_TYPE_REQ\<close> are the strings \<open>optional\<close> and
  \<open>required\<close>. In the \<open>desc\<close> texts a backslash at the end of a line of a template
  literal continues the line.
\<close>

definition RPC :: "(jsstring \<times> jsval) list" where
  \<open>RPC = [
    (js ''getbestblockhash'', JObject [(js ''desc'', JString (js ''Returns the hash of the best (tip) block in the most-work fully-validated chain.''))]),
    (js ''getblock'', JObject [(js ''args'', JArray [JObject [(js ''type'', JString (js ''required'')),
              (js ''name'', JString (js ''blockhash'')),
              (js ''valid_values'', JString (js ''hash''))],
            JObject [(js ''type'', JString (js ''optional'')),
              (js ''name'', JString (js ''verbosity'')),
              (js ''default'', JNumber 1),
              (js ''valid_values'', JArray [JNumber 0,
                  JNumber 1,
                  JNumber 2])]]),
        (js ''desc'', JString (js ''If verbosity is 0, returns a string that is serialized, hex-encoded data '' @
          js ''for block 'hash'.   If verbosity is 1, returns an Object with information '' @
          js ''about block 'hash'.   If verbosity is 2, returns an Object with information '' @
          js ''about block 'hash' and information about each transaction.''))]),
    (js ''getblockchaininfo'', JObject [(js ''desc'', JString (js ''Returns an object containing various state info regarding blockchain processing.''))]),
    (js ''getblockcount'', JObject [(js ''desc'', JString (js ''Returns the height of the most-work fully-validated chain. The genesis '' @
          js ''block has height 0.''))]),
    (js ''getblockfilter'', JObject [(js ''args'', JArray [JObject [(js ''type'', JString (js ''required'')),
              (js ''name'', JString (js ''blockhash'')),
              (js ''valid_values'', JString (js ''hash''))],
            JObject [(js ''type'', JString (js ''optional'')),
              (js ''name'', JString (js ''filtertype'')),
              (js ''default'', JString (js ''basic'')),
              (js ''valid_values'', JString (js ''string''))]]),
        (js ''desc'', JString (js ''Retrieve a BIP 157 content filter for a particular block.''))]),
    (js ''getblockhash'', JObject [(js ''args'', JArray [JObject [(js ''type'', JString (js ''required'')),
              (js ''name'', JString (js ''height'')),
              (js ''valid_values'', JString (js ''number''))]]),
        (js ''desc'', JString (js ''Returns hash of block in best-block-chain at height provided.''))]),
    (js ''getblockheader'', JObject []),
    (js ''getblockstats'', JObject []),
    (js ''getchaintips'', JObject []),
    (js ''getchaintxstats'', JObject []),
    (js ''getdifficulty'', JObject []),
    (js ''getmempoolancestors'', JObject []),
    (js ''getmempooldescendants'', JObject []),
    (js ''getmempoolentry'', JObject []),
    (js ''getmempoolinfo'', JObject []),
    (js ''getrawmempool'', JObject []),
    (js ''gettxout'', JObject []),
    (js ''gettxoutproof'', JObject []),
    (js ''gettxoutsetinfo'', JObject []),
    (js ''preciousblock'', JObject []),
    (js ''pruneblockchain'', JObject []),
    (js ''savemempool'', JObject []),
    (js ''scantxoutset'', JObject []),
    (js ''verifychain'', JObject []),
    (js ''verifytxoutproof'', JObject []),
    (js ''getmemoryinfo'', JObject [(js ''args'', JArray [JObject [(js ''type'', JString (js ''optional'')),
              (js ''default'', JString (js ''stats'')),
              (js ''valid_values'', JArray [JString (js ''stats''),
                  JString (js ''mallocinfo'')])]]),
        (js ''desc'', JString (js ''Returns an object containing information about memory usage.''))]),
    (js ''getrpcinfo'', JObject [(js ''desc'', JString (js ''Returns details of the RPC server.''))]),
    (js ''help'', JObject [(js ''desc'', JString (js ''List all commands, or get help for a specified command.''))]),
    (js ''logging'', JObject [(js ''args'', JArray [JObject [(js ''type'', JString (js ''optional'')),
              (js ''valid_values'', JArray [JString (js ''net''),
                  JString (js ''tor''),
                  JString (js ''mempool''),
                  JString (js ''http''),
                  JString (js ''bench''),
                  JString (js ''zmq''),
                  JString (js ''walletdb''),
                  JString (js ''rpc''),
                  JString (js ''estimatefee''),
                  JString (js ''addrman''),
                  JString (js ''selectcoins''),
                  JString (js ''reindex''),
                  JString (js ''cmpctblock''),
                  JString (js ''rand''),
                  JString (js ''prune''),
                  JString (js ''proxy''),
                  JString (js ''mempoolrej''),
                  JString (js ''libevent''),
                  JString (js ''coindb''),
                  JString (js ''qt''),
                  JString (js ''leveldb''),
                  JString (js ''validation''),
                  JString (js ''all''),
                  JString (js ''1''),
                  JString (js ''none''),
                  JString (js ''0'')])],
            JObject [(js ''type'', JString (js ''optional'')),
              (js ''valid_values'', JArray [JString (js ''net''),
                  JString (js ''tor''),
                  JString (js ''mempool''),
                  JString (js ''http''),
                  JString (js ''bench''),
                  JString (js ''zmq''),
                  JString (js ''walletdb''),
                  JString (js ''rpc''),
                  JString (js ''estimatefee''),
                  JString (js ''addrman''),
                  JString (js ''selectcoins''),
                  JString (js ''reindex''),
                  JString (js ''cmpctblock''),
                  JString (js ''rand''),
                  JString (js ''prune''),
                  JString (js ''proxy''),
                  JString (js ''mempoolrej''),
                  JString (js ''libevent''),
                  JString (js ''coindb''),
                  JString (js ''qt''),
                  JString (js ''leveldb''),
                  JString (js ''validation''),
                  JString (js ''all''),
                  JString (js ''1''),
                  JString (js ''none''),
                  JString (js ''0'')])]]),
        (js ''desc'', JString (js ''Gets and sets the logging configuration.   When called without an argument, '' @
          js ''returns the list of categories with status that are currently being debug '' @
          js ''logged or not.   When called with arguments, adds or removes categories '' @
          js ''from debug logging and return the lists above.   The arguments are evaluated '' @
          js ''in order '' @ [0x201C] @ js ''include'' @ [0x201D] @ js '', '' @ [0x201C] @
          js ''exclude'' @ [0x201D] @
          js ''.   If an item is both included and excluded, it will thus end up being '' @
          js ''excluded.   The valid logging categories are: net, tor, mempool, http, '' @
          js ''bench, zmq, walletdb, rpc, estimatefee, addrman, selectcoins, reindex, '' @
          js ''cmpctblock, rand, prune, proxy, mempoolrej, libevent, coindb, qt, leveldb, '' @
          js ''validation In addition, the following are available as category names '' @
          js ''with special meanings:     - '' @ [0x201C] @ js ''all'' @ [0x201D] @ js '', '' @
          [0x201C] @ js ''1'' @ [0x201D] @ js '' : represent all logging categories     - '' @
          [0x201C] @ js ''none'' @ [0x201D] @ js '', '' @ [0x201C] @ js ''0'' @ [0x201D] @
          js '' : even if other logging categories are specified, ignore all of them.''))]),
    (js ''stop'', JObject [(js ''desc'', JString (js ''Request a graceful shutdown of Bitcoin Core.''))]),
    (js ''uptime'', JObject [(js ''desc'', JString (js ''Returns the total uptime of the server.''))]),
    (js ''generateblock'', JObject []),
    (js ''generatetoaddress'', JObject []),
    (js ''generatetodescriptor'', JObject []),
    (js ''getblocktemplate'', JObject []),
    (js ''getmininginfo'', JObject []),
    (js ''getnetworkhashps'', JObject []),
    (js ''prioritisetransaction'', JObject []),
    (js ''submitblock'', JObject []),
    (js ''submitheader'', JObject []),
    (js ''addnode'', JObject [(js ''args'', JArray [JObject [(js ''type'', JString (js ''required'')),
              (js ''name'', JString (js ''node'')),
              (js ''valid_values'', JString (js ''string''))],
            JObject [(js ''type'', JString (js ''required'')),
              (js ''name'', JString (js ''command'')),
              (js ''valid_values'', JArray [JString (js ''add''),
                  JString (js ''remove''),
                  JString (js ''onetry'')])]]),
        (js ''desc'', JString (js ''Attempts to add or remove a node from the addnode list.   Or try a connection '' @
          js ''to a node once.   Nodes added using addnode (or -connect) are protected '' @
          js ''from DoS disconnection and are not required to be full nodes/support SegWit '' @
          js ''as other outbound peers are (though such peers will not be synced from)''))]),
    (js ''clearbanned'', JObject []),
    (js ''disconnectnode'', JObject []),
    (js ''getaddednodeinfo'', JObject [(js ''args'', JArray [JObject [(js ''type'', JString (js ''optional'')),
              (js ''name'', JString (js ''node'')),
              (js ''default'', JString (js ''all nodes'')),
              (js ''valid_values'', JString (js ''string''))]]),
        (js ''desc'', JString (js ''Returns information about the given added node, or all added nodes (note '' @
          js ''that onetry addnodes are not listed here)''))]),
    (js ''getconnectioncount'', JObject [(js ''desc'', JString (js ''Returns the number of connections to other nodes.''))]),
    (js ''getnettotals'', JObject [(js ''desc'', JString (js ''Returns information about network traffic, including bytes in, bytes out, '' @
          js ''and current time.''))]),
    (js ''getnetworkinfo'', JObject [(js ''desc'', JString (js ''Returns an object containing various state info regarding P2P networking.''))]),
    (js ''getnodeaddresses'', JObject [(js ''args'', JArray [JObject [(js ''type'', JString (js ''optional'')),
              (js ''name'', JString (js ''count'')),
              (js ''valid_values'', JString (js ''number''))]]),
        (js ''desc'', JString (js ''Return known addresses which can potentially be used to find new nodes '' @
          js ''in the network''))]),
    (js ''getpeerinfo'', JObject [(js ''desc'', JString (js ''Returns data about each connected network node as a json array of objects.''))]),
    (js ''listbanned'', JObject [(js ''desc'', JString (js ''List all manually banned IPs/Subnets.''))]),
    (js ''ping'', JObject [(js ''desc'', JString (js ''Requests that a ping be sent to all other nodes, to measure ping time. '' @
          js ''  Results provided in getpeerinfo, pingtime and pingwait fields are decimal '' @
          js ''seconds.   Ping command is handled in queue with all other commands, so '' @
          js ''it measures processing backlog, not just network ping.''))]),
    (js ''setban'', JObject [(js ''args'', JArray [JObject [(js ''type'', JString (js ''required'')),
              (js ''name'', JString (js ''subnet'')),
              (js ''valid_values'', JString (js ''ip/subnet''))],
            JObject [(js ''type'', JString (js ''required'')),
              (js ''name'', JString (js ''command'')),
              (js ''valid_values'', JArray [JString (js ''add''),
                  JString (js ''remove'')])],
            JObject [(js ''type'', JString (js ''optional'')),
              (js ''name'', JString (js ''bantime'')),
              (js ''default'', JNumber 0),
              (js ''valid_values'', JString (js ''number''))],
            JObject [(js ''type'', JString (js ''optional'')),
              (js ''name'', JString (js ''absolute'')),
              (js ''default'', JBool False),
              (js ''valid_values'', JString (js ''boolean''))]]),
        (js ''desc'', JString (js ''Attempts to add or remove an IP/Subnet from the banned list.''))]),
    (js ''setnetworkactive'', JObject [(js ''args'', JObject [(js ''type'', JString (js ''required'')),
            (js ''name'', JString (js ''state'')),
            (js ''valid_values'', JString (js ''boolean''))]),
        (js ''desc'', JString (js ''Disable/enable all p2p network activity.''))]),
    (js ''analyzepsbt'', JObject []),
    (js ''combinepsbt'', JObject []),
    (js ''combinerawtransaction'', JObject []),
    (js ''converttopsbt'', JObject []),
    (js ''createpsbt'', JObject []),
    (js ''createrawtransaction'', JObject []),
    (js ''decodepsbt'', JObject []),
    (js ''decoderawtransaction'', JObject []),
    (js ''decodescript'', JObject []),
    (js ''finalizepsbt'', JObject []),
    (js ''fundrawtransaction'', JObject []),
    (js ''getrawtransaction'', JObject []),
    (js ''joinpsbts'', JObject []),
    (js ''sendrawtransaction'', JObject []),
    (js ''signrawtransactionwithkey'', JObject []),
    (js ''testmempoolaccept'', JObject []),
    (js ''utxoupdatepsbt'', JObject []),
    (js ''createmultisig'', JObject []),
    (js ''deriveaddresses'', JObject []),
    (js ''estimatesmartfee'', JObject []),
    (js ''getdescriptorinfo'', JObject []),
    (js ''getindexinfo'', JObject []),
    (js ''signmessagewithprivkey'', JObject []),
    (js ''validateaddress'', JObject []),
    (js ''verifymessage'', JObject []),
    (js ''abandontransaction'', JObject []),
    (js ''abortrescan'', JObject []),
    (js ''addmultisigaddress'', JObject []),
    (js ''backupwallet'', JObject []),
    (js ''bumpfee'', JObject []),
    (js ''createwallet'', JObject []),
    (js ''dumpprivkey'', JObject []),
    (js ''dumpwallet'', JObject []),
    (js ''encryptwallet'', JObject []),
    (js ''getaddressesbylabel'', JObject []),
    (js ''getaddressinfo'', JObject []),
    (js ''getbalance'', JObject []),
    (js ''getbalances'', JObject []),
    (js ''getnewaddress'', JObject []),
    (js ''getrawchangeaddress'', JObject []),
    (js ''getreceivedbyaddress'', JObject []),
    (js ''getreceivedbylabel'', JObject []),
    (js ''gettransaction'', JObject []),
    (js ''getunconfirmedbalance'', JObject []),
    (js ''getwalletinfo'', JObject []),
    (js ''importaddress'', JObject []),
    (js ''importdescriptors'', JObject []),
    (js ''importmulti'', JObject []),
    (js ''importprivkey'', JObject []),
    (js ''importprunedfunds'', JObject []),
    (js ''importpubkey'', JObject []),
    (js ''importwallet'', JObject []),
    (js ''keypoolrefill'', JObject []),
    (js ''listaddressgroupings'', JObject []),
    (js ''listlabels'', JObject []),
    (js ''listlockunspent'', JObject []),
    (js ''listreceivedbyaddress'', JObject []),
    (js ''listreceivedbylabel'', JObject []),
    (js ''listsinceblock'', JObject []),
    (js ''listtransactions'', JObject []),
    (js ''listunspent'', JObject []),
    (js ''listwalletdir'', JObject []),
    (js ''listwallets'', JObject []),
    (js ''loadwallet'', JObject []),
    (js ''lockunspent'', JObject []),
    (js ''psbtbumpfee'', JObject []),
    (js ''removeprunedfunds'', JObject []),
    (js ''rescanblockchain'', JObject []),
    (js ''send'', JObject []),
    (js ''sendmany'', JObject []),
    (js ''sendtoaddress'', JObject []),
    (js ''sethdseed'', JObject []),
    (js ''setlabel'', JObject []),
    (js ''settxfee'', JObject []),
    (js ''setwalletflag'', JObject []),
    (js ''signmessage'', JObject []),
    (js ''signrawtransactionwithwallet'', JObject []),
    (js ''unloadwallet'', JObject []),
    (js ''upgradewallet'', JObject []),
    (js ''walletcreatefundedpsbt'', JObject []),
    (js ''walletlock'', JObject []),
    (js ''walletpassphrase'', JObject []),
    (js ''walletpassphrasechange'', JObject []),
    (js ''walletprocesspsbt'', JObject [])
  ]\<close>

text \<open>
  \<open>RPC\<close> is a plain object, so the lookup \<open>RPC[method]\<close> goes on to \<open>Object.prototype\<close>
  when \<open>method\<close> is not an own property. These are the properties of \<open>Object.prototype\<close>
  in Node.js: eleven built-in functions and the accessor \<open>__proto__\<close>, which answers with
  \<open>Object.prototype\<close> itself.
\<close>

definition Object_prototype :: "jsstring list" where
  "Object_prototype =
    [js ''constructor'', js ''__defineGetter__'', js ''__defineSetter__'',
     js ''hasOwnProperty'', js ''__lookupGetter__'', js ''__lookupSetter__'',
     js ''isPrototypeOf'', js ''propertyIsEnumerable'', js ''toString'', js ''valueOf'',
     js ''__proto__'', js ''toLocaleString'']"

text \<open>
  What \<open>RPC[method]\<close> evaluates to: \<open>undefined\<close>, a descriptor of the table, or a built-in
  of \<open>Object.prototype\<close>.
\<close>

datatype looked_up = Missing | Descriptor jsval | Inherited

definition RPC_get :: "jsstring \<Rightarrow> looked_up" where
  "RPC_get name =
     (case map_of RPC name of
        Some d \<Rightarrow> Descriptor d
      | None \<Rightarrow> if name \<in> set Object_prototype then Inherited else Missing)"

text \<open>
  \<open>RPC[method].args\<close>: a built-in function has no property \<open>args\<close>, and neither has
  \<open>Object.prototype\<close>.
\<close>

fun args_of :: "looked_up \<Rightarrow> error + jsval" where
  "args_of Missing = Inl TypeError"
| "args_of (Descriptor d) = get_prop d (js ''args'')"
| "args_of Inherited = Inr JUndefined"

section \<open>helper.js\<close>

text \<open>
  \<^verbatim>\<open>export function isKnownMethod(method) { return RPC[method] !== undefined; }\<close>
\<close>

definition isKnownMethod :: "jsstring \<Rightarrow> bool" where
  "isKnownMethod name = (RPC_get name \<noteq> Missing)"

text \<open>
  \<^verbatim>\<open>
  export function isValidArgsForMethod(method, args = []) {
    if (!isKnownMethod(method)) return false;
    const specifiedArgs = RPC[method].args;
    if (args.length !== specifiedArgs.length) return false;
    // some more validation..
    return false;
  }\<close>
  The parameter \<open>args\<close> is \<open>None\<close> when the caller leaves it out. The comparison \<open>!==\<close>
  has a number on its left, so it is the inequality of the two values.
\<close>

definition isValidArgsForMethod :: "jsstring \<Rightarrow> jsval list option \<Rightarrow> error + bool" where
  "isValidArgsForMethod name args_opt =
     (let args = (case args_opt of None \<Rightarrow> [] | Some a \<Rightarrow> a) in
      if \<not> isKnownMethod name then Inr False
      else
        (case args_of (RPC_get name) of
           Inl e \<Rightarrow> Inl e
         | Inr specifiedArgs \<Rightarrow>
             (case get_prop specifiedArgs (js ''length'') of
                Inl e \<Rightarrow> Inl e
              | Inr n \<Rightarrow>
                  if JNumber (of_nat (length args)) \<noteq> n then Inr False
                  else Inr False)))"

section \<open>JSON.parse\<close>

text \<open>
  The built-in \<open>JSON.parse\<close>, after the JSON grammar of ECMA-404: the text is cut into
  tokens, and a pushdown automaton builds the value from the tokens.
\<close>

subsection \<open>Tokens\<close>

datatype token =
    TLBrace | TRBrace | TLBracket | TRBracket | TComma | TColon
  | TString jsstring | TNumber rat | TTrue | TFalse | TNull

definition is_ws :: "16 word \<Rightarrow> bool" where
  "is_ws c = (c = 0x20 \<or> c = 0x09 \<or> c = 0x0A \<or> c = 0x0D)"

definition is_digit :: "16 word \<Rightarrow> bool" where
  "is_digit c = (0x30 \<le> c \<and> c \<le> 0x39)"

definition digit_val :: "16 word \<Rightarrow> nat" where
  "digit_val c = unat c - 48"

definition digits_val :: "jsstring \<Rightarrow> nat" where
  "digits_val ds = foldl (\<lambda>a c. 10 * a + digit_val c) 0 ds"

definition hex_val :: "16 word \<Rightarrow> nat option" where
  "hex_val c =
     (if 0x30 \<le> c \<and> c \<le> 0x39 then Some (unat c - 48)
      else if 0x61 \<le> c \<and> c \<le> 0x66 then Some (unat c - 87)
      else if 0x41 \<le> c \<and> c \<le> 0x46 then Some (unat c - 55)
      else None)"

text \<open>The four hexadecimal digits of an escape \<open>\uXXXX\<close>.\<close>

definition hex4 :: "16 word \<Rightarrow> 16 word \<Rightarrow> 16 word \<Rightarrow> 16 word \<Rightarrow> 16 word option" where
  "hex4 a b c d =
     (case (hex_val a, hex_val b, hex_val c, hex_val d) of
        (Some h3, Some h2, Some h1, Some h0) \<Rightarrow>
          Some (of_nat (((h3 * 16 + h2) * 16 + h1) * 16 + h0))
      | _ \<Rightarrow> None)"

text \<open>The character after a backslash, other than \<open>u\<close>.\<close>

definition unescape :: "16 word \<Rightarrow> 16 word option" where
  "unescape e =
     (if e = 0x22 then Some 0x22
      else if e = 0x5C then Some 0x5C
      else if e = 0x2F then Some 0x2F
      else if e = 0x62 then Some 0x08
      else if e = 0x66 then Some 0x0C
      else if e = 0x6E then Some 0x0A
      else if e = 0x72 then Some 0x0D
      else if e = 0x74 then Some 0x09
      else None)"

text \<open>
  A string, read from behind its opening quote up to the closing quote: the characters
  of the string, and the text that follows. A control character below U+0020 must be
  escaped.
\<close>

fun lex_string :: "jsstring \<Rightarrow> (jsstring \<times> jsstring) option" where
  "lex_string [] = None"
| "lex_string (c # cs) =
     (if c = 0x22 then Some ([], cs)
      else if c = 0x5C then
        (case cs of
           [] \<Rightarrow> None
         | e # es \<Rightarrow>
             if e = 0x75 then
               (case es of
                  h3 # h2 # h1 # h0 # r \<Rightarrow>
                    (case hex4 h3 h2 h1 h0 of
                       None \<Rightarrow> None
                     | Some u \<Rightarrow>
                         (case lex_string r of
                            None \<Rightarrow> None
                          | Some (s, rest) \<Rightarrow> Some (u # s, rest)))
                | _ \<Rightarrow> None)
             else
               (case unescape e of
                  None \<Rightarrow> None
                | Some u \<Rightarrow>
                    (case lex_string es of
                       None \<Rightarrow> None
                     | Some (s, rest) \<Rightarrow> Some (u # s, rest))))
      else if c < 0x20 then None
      else
        (case lex_string cs of
           None \<Rightarrow> None
         | Some (s, rest) \<Rightarrow> Some (c # s, rest)))"

text \<open>
  A number: an optional minus sign, the integer part (a single \<open>0\<close>, or digits that start
  with a digit from 1 to 9), an optional fraction and an optional exponent. Its value is
  the decimal that the text denotes. The runtime goes on to round this decimal to the
  nearest binary64 value: a text of more than 15 significant digits can read as a number
  that is written with other digits, and a text beyond the range of binary64 reads as an
  infinity. The rounding changes the number that the value carries, not whether the text
  is accepted, and it is left out here.
\<close>

definition lex_int :: "jsstring \<Rightarrow> (jsstring \<times> jsstring) option" where
  "lex_int cs =
     (case cs of
        [] \<Rightarrow> None
      | c # r \<Rightarrow>
          if c = 0x30 then Some ([c], r)
          else if is_digit c then Some (takeWhile is_digit cs, dropWhile is_digit cs)
          else None)"

definition lex_frac :: "jsstring \<Rightarrow> (jsstring \<times> jsstring) option" where
  "lex_frac cs =
     (case cs of
        [] \<Rightarrow> Some ([], cs)
      | c # r \<Rightarrow>
          if c = 0x2E then
            (if takeWhile is_digit r = [] then None
             else Some (takeWhile is_digit r, dropWhile is_digit r))
          else Some ([], cs))"

definition lex_sign :: "jsstring \<Rightarrow> int \<times> jsstring" where
  "lex_sign cs =
     (case cs of
        [] \<Rightarrow> (1, cs)
      | c # r \<Rightarrow> if c = 0x2B then (1, r) else if c = 0x2D then (- 1, r) else (1, cs))"

definition lex_exp :: "jsstring \<Rightarrow> (int \<times> jsstring) option" where
  "lex_exp cs =
     (case cs of
        [] \<Rightarrow> Some (0, cs)
      | c # r \<Rightarrow>
          if c = 0x65 \<or> c = 0x45 then
            (case lex_sign r of
               (sg, r') \<Rightarrow>
                 if takeWhile is_digit r' = [] then None
                 else Some (sg * int (digits_val (takeWhile is_digit r')),
                            dropWhile is_digit r'))
          else Some (0, cs))"

definition scale :: "rat \<Rightarrow> int \<Rightarrow> rat" where
  "scale x e = (if 0 \<le> e then x * 10 ^ nat e else x / 10 ^ nat (- e))"

definition lex_number :: "jsstring \<Rightarrow> (rat \<times> jsstring) option" where
  "lex_number cs =
     (let neg = (case cs of [] \<Rightarrow> False | c # r \<Rightarrow> c = 0x2D);
          cs1 = (if neg then tl cs else cs)
      in case lex_int cs1 of
           None \<Rightarrow> None
         | Some (ip, cs2) \<Rightarrow>
             (case lex_frac cs2 of
                None \<Rightarrow> None
              | Some (fp, cs3) \<Rightarrow>
                  (case lex_exp cs3 of
                     None \<Rightarrow> None
                   | Some (e, cs4) \<Rightarrow>
                       Some ((if neg then - 1 else 1) *
                             scale (of_nat (digits_val ip) +
                                    of_nat (digits_val fp) / 10 ^ length fp) e,
                             cs4))))"

definition lex_literal :: "jsstring \<Rightarrow> (token \<times> jsstring) option" where
  "lex_literal cs =
     (if take 4 cs = js ''true'' then Some (TTrue, drop 4 cs)
      else if take 5 cs = js ''false'' then Some (TFalse, drop 5 cs)
      else if take 4 cs = js ''null'' then Some (TNull, drop 4 cs)
      else None)"

text \<open>One token from the head of a text that does not start with white space.\<close>

definition lex_token :: "jsstring \<Rightarrow> (token \<times> jsstring) option" where
  "lex_token cs =
     (case cs of
        [] \<Rightarrow> None
      | c # r \<Rightarrow>
          if c = 0x7B then Some (TLBrace, r)
          else if c = 0x7D then Some (TRBrace, r)
          else if c = 0x5B then Some (TLBracket, r)
          else if c = 0x5D then Some (TRBracket, r)
          else if c = 0x2C then Some (TComma, r)
          else if c = 0x3A then Some (TColon, r)
          else if c = 0x22 then
            (case lex_string r of
               None \<Rightarrow> None
             | Some (s, rest) \<Rightarrow> Some (TString s, rest))
          else if c = 0x2D \<or> is_digit c then
            (case lex_number cs of
               None \<Rightarrow> None
             | Some (q, rest) \<Rightarrow> Some (TNumber q, rest))
          else lex_literal cs)"

lemma lex_string_shorter: "lex_string cs = Some (s, rest) \<Longrightarrow> length rest < length cs"
proof (induction cs arbitrary: s rest rule: length_induct)
  case (1 cs)
  have IH: "lex_string ys = Some (s', rest') \<Longrightarrow> length ys < length cs
            \<Longrightarrow> length rest' < length ys" for ys s' rest'
    using "1.IH" by blast
  show ?case
  proof (cases cs)
    case Nil
    with "1.prems" show ?thesis by simp
  next
    case (Cons c cs')
    show ?thesis
      using "1.prems" Cons
      by (auto split: if_splits list.splits option.splits dest!: IH)
  qed
qed

lemma lex_int_shorter: "lex_int cs = Some (ip, rest) \<Longrightarrow> length rest < length cs"
proof -
  have "length (dropWhile is_digit r) \<le> length r" for r
    by (rule length_dropWhile_le)
  then show "lex_int cs = Some (ip, rest) \<Longrightarrow> length rest < length cs"
    by (cases cs) (auto simp: lex_int_def le_imp_less_Suc split: if_splits)
qed

lemma lex_frac_shorter: "lex_frac cs = Some (fp, rest) \<Longrightarrow> length rest \<le> length cs"
  using length_dropWhile_le [of is_digit "tl cs"]
  by (cases cs) (auto simp: lex_frac_def split: if_splits)

lemma lex_sign_shorter: "lex_sign cs = (sg, rest) \<Longrightarrow> length rest \<le> length cs"
  by (cases cs) (auto simp: lex_sign_def split: if_splits)

lemma lex_exp_shorter: "lex_exp cs = Some (e, rest) \<Longrightarrow> length rest \<le> length cs"
proof (cases cs)
  case Nil
  assume "lex_exp cs = Some (e, rest)"
  with Nil show ?thesis by (simp add: lex_exp_def)
next
  case (Cons c r)
  assume a: "lex_exp cs = Some (e, rest)"
  obtain sg r' where sg: "lex_sign r = (sg, r')" by (cases "lex_sign r")
  have "length (dropWhile is_digit r') \<le> length r'" by (rule length_dropWhile_le)
  moreover have "length r' \<le> length r" using sg by (rule lex_sign_shorter)
  ultimately show ?thesis
    using a Cons sg by (auto simp: lex_exp_def split: if_splits)
qed

lemma lex_number_shorter:
  assumes "lex_number cs = Some (q, rest)"
  shows "length rest < length cs"
proof -
  let ?cs1 = "if (case cs of [] \<Rightarrow> False | c # r \<Rightarrow> c = 0x2D) then tl cs else cs"
  from assms obtain ip cs2 fp cs3 e where
    i: "lex_int ?cs1 = Some (ip, cs2)" and f: "lex_frac cs2 = Some (fp, cs3)"
    and x: "lex_exp cs3 = Some (e, rest)"
    by (auto simp: lex_number_def Let_def split: option.splits)
  have "length ?cs1 \<le> length cs" by simp
  with lex_int_shorter [OF i] lex_frac_shorter [OF f] lex_exp_shorter [OF x]
  show ?thesis by linarith
qed

lemma lex_literal_shorter: "lex_literal cs = Some (t, rest) \<Longrightarrow> length rest < length cs"
  by (cases cs) (auto simp: lex_literal_def js_def split: if_splits)

lemma lex_token_shorter: "lex_token cs = Some (t, rest) \<Longrightarrow> length rest < length cs"
  by (cases cs)
     (auto simp: lex_token_def less_Suc_eq split: if_splits option.splits
           dest: lex_string_shorter lex_number_shorter lex_literal_shorter)

text \<open>The tokens of a whole text; white space may stand between them.\<close>

function lex :: "jsstring \<Rightarrow> token list option" where
  "lex [] = Some []"
| "lex (c # cs) =
     (if is_ws c then lex cs
      else
        (case lex_token (c # cs) of
           None \<Rightarrow> None
         | Some (t, rest) \<Rightarrow>
             (case lex rest of
                None \<Rightarrow> None
              | Some ts \<Rightarrow> Some (t # ts))))"
  by pat_completeness auto
termination
  by (relation "measure length") (auto dest: lex_token_shorter)

subsection \<open>Building the value\<close>

text \<open>
  The own properties of an object are enumerated with the array indices first, in
  ascending order, and then the other names in the order of their creation. An array
  index is the canonical decimal notation of a number below \<open>2^32 - 1\<close>.
\<close>

definition array_index :: "jsstring \<Rightarrow> nat option" where
  "array_index k =
     (if k = [] \<or> \<not> list_all is_digit k then None
      else if hd k = 0x30 \<and> 1 < length k then None
      else if digits_val k \<le> 4294967294 then Some (digits_val k)
      else None)"

definition precedes :: "jsstring \<Rightarrow> jsstring \<Rightarrow> bool" where
  "precedes a b =
     (case (array_index a, array_index b) of
        (Some i, Some j) \<Rightarrow> i < j
      | (Some i, None) \<Rightarrow> True
      | (None, Some j) \<Rightarrow> False
      | (None, None) \<Rightarrow> True)"

fun obj_insert :: "jsstring \<Rightarrow> jsval \<Rightarrow> (jsstring \<times> jsval) list \<Rightarrow> (jsstring \<times> jsval) list" where
  "obj_insert k v [] = [(k, v)]"
| "obj_insert k v ((k', v') # kvs) =
     (if precedes k' k then (k', v') # obj_insert k v kvs
      else (k, v) # (k', v') # kvs)"

fun obj_update :: "jsstring \<Rightarrow> jsval \<Rightarrow> (jsstring \<times> jsval) list \<Rightarrow> (jsstring \<times> jsval) list" where
  "obj_update k v [] = []"
| "obj_update k v ((k', v') # kvs) =
     (if k' = k then (k, v) # kvs else (k', v') # obj_update k v kvs)"

text \<open>
  A member \<open>k: v\<close> of an object in a JSON text defines the property \<open>k\<close>: a name met
  before keeps its place and takes the new value.
\<close>

definition obj_put :: "jsstring \<Rightarrow> jsval \<Rightarrow> (jsstring \<times> jsval) list \<Rightarrow> (jsstring \<times> jsval) list" where
  "obj_put k v kvs =
     (if map_of kvs k = None then obj_insert k v kvs else obj_update k v kvs)"

text \<open>
  The automaton. A frame is an array or an object that is still open: the elements read
  so far, or the properties read so far and the name whose value comes next.
\<close>

datatype frame =
    InArray "jsval list"
  | InObject "(jsstring \<times> jsval) list" jsstring

datatype pstate =
    Expect "frame list"
  | ArrOpen "frame list"
  | ArrAfter "jsval list" "frame list"
  | ObjOpen "frame list"
  | ObjKey "(jsstring \<times> jsval) list" "frame list"
  | ObjColon "(jsstring \<times> jsval) list" jsstring "frame list"
  | ObjAfter "(jsstring \<times> jsval) list" "frame list"
  | Done jsval

text \<open>A value is complete: it goes into the innermost open array or object.\<close>

fun after_value :: "jsval \<Rightarrow> frame list \<Rightarrow> pstate" where
  "after_value v [] = Done v"
| "after_value v (InArray vs # fs) = ArrAfter (vs @ [v]) fs"
| "after_value v (InObject kvs k # fs) = ObjAfter (obj_put k v kvs) fs"

text \<open>The first token of a value.\<close>

fun begin_value :: "token \<Rightarrow> frame list \<Rightarrow> pstate option" where
  "begin_value TLBracket fs = Some (ArrOpen fs)"
| "begin_value TLBrace fs = Some (ObjOpen fs)"
| "begin_value (TString s) fs = Some (after_value (JString s) fs)"
| "begin_value (TNumber q) fs = Some (after_value (JNumber q) fs)"
| "begin_value TTrue fs = Some (after_value (JBool True) fs)"
| "begin_value TFalse fs = Some (after_value (JBool False) fs)"
| "begin_value TNull fs = Some (after_value JNull fs)"
| "begin_value TRBrace fs = None"
| "begin_value TRBracket fs = None"
| "begin_value TComma fs = None"
| "begin_value TColon fs = None"

fun step :: "pstate \<Rightarrow> token \<Rightarrow> pstate option" where
  "step (Expect fs) t = begin_value t fs"
| "step (ArrOpen fs) t =
     (if t = TRBracket then Some (after_value (JArray []) fs)
      else begin_value t (InArray [] # fs))"
| "step (ArrAfter vs fs) t =
     (if t = TComma then Some (Expect (InArray vs # fs))
      else if t = TRBracket then Some (after_value (JArray vs) fs)
      else None)"
| "step (ObjOpen fs) t =
     (case t of
        TRBrace \<Rightarrow> Some (after_value (JObject []) fs)
      | TString k \<Rightarrow> Some (ObjColon [] k fs)
      | _ \<Rightarrow> None)"
| "step (ObjKey kvs fs) t =
     (case t of TString k \<Rightarrow> Some (ObjColon kvs k fs) | _ \<Rightarrow> None)"
| "step (ObjColon kvs k fs) t =
     (if t = TColon then Some (Expect (InObject kvs k # fs)) else None)"
| "step (ObjAfter kvs fs) t =
     (if t = TComma then Some (ObjKey kvs fs)
      else if t = TRBrace then Some (after_value (JObject kvs) fs)
      else None)"
| "step (Done v) t = None"

fun run :: "pstate \<Rightarrow> token list \<Rightarrow> pstate option" where
  "run st [] = Some st"
| "run st (t # ts) = (case step st t of None \<Rightarrow> None | Some st' \<Rightarrow> run st' ts)"

text \<open>
  \<open>JSON.parse(text)\<close>: the value of the text, or a SyntaxError when the text is not one
  JSON value.
\<close>

definition JSON_parse :: "jsstring \<Rightarrow> error + jsval" where
  "JSON_parse text =
     (case lex text of
        None \<Rightarrow> Inl SyntaxError
      | Some ts \<Rightarrow>
          (case run (Expect []) ts of
             Some (Done v) \<Rightarrow> Inr v
           | _ \<Rightarrow> Inl SyntaxError))"

section \<open>JSON.stringify\<close>

text \<open>
  The built-in \<open>JSON.stringify(value, null, 0)\<close>, after the abstract operations of
  ECMAScript: without a replacer, and with no indentation since the space is 0.
\<close>

subsection \<open>Strings\<close>

definition is_high :: "16 word \<Rightarrow> bool" where
  "is_high c = (0xD800 \<le> c \<and> c \<le> 0xDBFF)"

definition is_low :: "16 word \<Rightarrow> bool" where
  "is_low c = (0xDC00 \<le> c \<and> c \<le> 0xDFFF)"

definition hex_digit :: "nat \<Rightarrow> 16 word" where
  "hex_digit n = (if n < 10 then 0x30 + of_nat n else 0x61 + of_nat (n - 10))"

text \<open>\<open>UnicodeEscape\<close>: a backslash, \<open>u\<close> and four lower-case hexadecimal digits.\<close>

definition UnicodeEscape :: "16 word \<Rightarrow> jsstring" where
  "UnicodeEscape c =
     [0x5C, 0x75, hex_digit (unat c div 4096), hex_digit (unat c div 256 mod 16),
      hex_digit (unat c div 16 mod 16), hex_digit (unat c mod 16)]"

text \<open>A code unit that is not a surrogate.\<close>

definition quote_unit :: "16 word \<Rightarrow> jsstring" where
  "quote_unit c =
     (if c = 0x08 then [0x5C, 0x62]
      else if c = 0x09 then [0x5C, 0x74]
      else if c = 0x0A then [0x5C, 0x6E]
      else if c = 0x0C then [0x5C, 0x66]
      else if c = 0x0D then [0x5C, 0x72]
      else if c = 0x22 then [0x5C, 0x22]
      else if c = 0x5C then [0x5C, 0x5C]
      else if c < 0x20 then UnicodeEscape c
      else [c])"

text \<open>
  The string is read by code points: a high surrogate with the low surrogate after it
  is one code point and stays as it is, a surrogate on its own is escaped.
\<close>

fun quote_units :: "jsstring \<Rightarrow> jsstring" where
  "quote_units [] = []"
| "quote_units [c] = (if is_high c \<or> is_low c then UnicodeEscape c else quote_unit c)"
| "quote_units (c # d # cs) =
     (if is_high c \<and> is_low d then c # d # quote_units cs
      else if is_high c \<or> is_low c then UnicodeEscape c @ quote_units (d # cs)
      else quote_unit c @ quote_units (d # cs))"

definition QuoteJSONString :: "jsstring \<Rightarrow> jsstring" where
  "QuoteJSONString s = 0x22 # quote_units s @ [0x22]"

subsection \<open>Numbers\<close>

text \<open>The decimal digits of a natural number.\<close>

function show_nat :: "nat \<Rightarrow> jsstring" where
  "show_nat n =
     (if n < 10 then [0x30 + of_nat n]
      else show_nat (n div 10) @ [0x30 + of_nat (n mod 10)])"
  by pat_completeness auto
termination
  by (relation "measure id") auto

declare show_nat.simps [simp del]

text \<open>
  \<open>places f q\<close> is the number of digits of \<open>q\<close> behind the point, as far as \<open>f\<close>. No
  finite binary64 value has more than 1074 of them, and the decimal that the runtime
  writes for a value has no more than the value: the numbers of the runtime are among the
  decimal fractions of at most 1074 digits behind the point.
\<close>

definition integral :: "rat \<Rightarrow> bool" where
  "integral q = (q = of_int \<lfloor>q\<rfloor>)"

fun places :: "nat \<Rightarrow> rat \<Rightarrow> nat" where
  "places 0 q = 0"
| "places (Suc f) q = (if integral q then 0 else Suc (places f (q * 10)))"

definition js_number :: "rat \<Rightarrow> bool" where
  "js_number q = integral (\<bar>q\<bar> * 10 ^ places 1074 \<bar>q\<bar>)"

definition strip_zeros :: "jsstring \<Rightarrow> jsstring" where
  "strip_zeros ds = rev (dropWhile (\<lambda>c. c = 0x30) (rev ds))"

text \<open>
  \<open>Number::toString\<close> of a positive number \<open>s * 10 ^ (n - k)\<close>, where \<open>sig\<close> are the \<open>k\<close>
  digits of \<open>s\<close>, the last of them not \<open>0\<close>:
  \<^item> for \<open>k \<le> n \<le> 21\<close> the digits, and \<open>n - k\<close> zeros;
  \<^item> for \<open>0 < n \<le> 21\<close> the first \<open>n\<close> digits, a point, and the other digits;
  \<^item> for \<open>-6 < n \<le> 0\<close> a zero, a point, \<open>-n\<close> zeros, and the digits;
  \<^item> otherwise the first digit, a point and the other digits if there are any, \<open>e\<close>, the
    sign of \<open>n - 1\<close> and the digits of its absolute value.
\<close>

definition format_number :: "jsstring \<Rightarrow> int \<Rightarrow> jsstring" where
  "format_number sig n =
     (let k = int (length sig) in
      if k \<le> n \<and> n \<le> 21 then sig @ replicate (nat (n - k)) 0x30
      else if 0 < n \<and> n \<le> 21 then take (nat n) sig @ 0x2E # drop (nat n) sig
      else if - 6 < n \<and> n \<le> 0 then 0x30 # 0x2E # replicate (nat (- n)) 0x30 @ sig
      else
        take 1 sig @ (if k = 1 then [] else 0x2E # drop 1 sig) @
        0x65 # (if n - 1 < 0 then 0x2D else 0x2B) # show_nat (nat \<bar>n - 1\<bar>))"

text \<open>
  The digits of a positive number \<open>q\<close> with \<open>j\<close> digits behind the point are those of the
  integer \<open>q * 10 ^ j\<close>; without the zeros at their end they are the digits of \<open>s\<close>, and \<open>n\<close>
  is their number less \<open>j\<close>. A rational of more than 1074 digits behind the point is no
  number of the runtime; its digits after these are left out.
\<close>

definition unsigned_toString :: "rat \<Rightarrow> jsstring" where
  "unsigned_toString q =
     (let j = places 1074 q;
          ds = show_nat (nat \<lfloor>q * 10 ^ j\<rfloor>)
      in format_number (strip_zeros ds) (int (length ds) - int j))"

definition Number_toString :: "rat \<Rightarrow> jsstring" where
  "Number_toString q =
     (if q = 0 then [0x30]
      else if q < 0 then 0x2D # unsigned_toString (- q)
      else unsigned_toString q)"

subsection \<open>Values\<close>

text \<open>The partial texts of an array or an object, with commas between them.\<close>

fun join :: "jsstring list \<Rightarrow> jsstring" where
  "join [] = []"
| "join [t] = t"
| "join (t # u # ts) = t @ 0x2C # join (u # ts)"

text \<open>
  \<open>SerializeJSONProperty\<close> answers with a text, or with \<open>undefined\<close> (\<open>None\<close>) for the
  value \<open>undefined\<close>. An array prints \<open>null\<close> for an element without a text; an object
  leaves a property without a text out.
\<close>

fun SerializeJSONProperty :: "jsval \<Rightarrow> jsstring option"
  and array_items :: "jsval list \<Rightarrow> jsstring list"
  and object_members :: "(jsstring \<times> jsval) list \<Rightarrow> jsstring list" where
  "SerializeJSONProperty JUndefined = None"
| "SerializeJSONProperty JNull = Some (js ''null'')"
| "SerializeJSONProperty (JBool b) = Some (if b then js ''true'' else js ''false'')"
| "SerializeJSONProperty (JNumber q) = Some (Number_toString q)"
| "SerializeJSONProperty (JString s) = Some (QuoteJSONString s)"
| "SerializeJSONProperty (JArray vs) = Some (0x5B # join (array_items vs) @ [0x5D])"
| "SerializeJSONProperty (JObject kvs) = Some (0x7B # join (object_members kvs) @ [0x7D])"
| "array_items [] = []"
| "array_items (v # vs) =
     (case SerializeJSONProperty v of
        None \<Rightarrow> js ''null'' # array_items vs
      | Some t \<Rightarrow> t # array_items vs)"
| "object_members [] = []"
| "object_members ((k, v) # kvs) =
     (case SerializeJSONProperty v of
        None \<Rightarrow> object_members kvs
      | Some t \<Rightarrow> (QuoteJSONString k @ 0x3A # t) # object_members kvs)"

text \<open>\<open>JSON.stringify\<close> of an object with the given properties is always a text.\<close>

definition SerializeJSONObject :: "(jsstring \<times> jsval) list \<Rightarrow> jsstring" where
  "SerializeJSONObject kvs = 0x7B # join (object_members kvs) @ [0x7D]"

section \<open>The client (BitcoinClient.js)\<close>

text \<open>The fields that the constructor sets.\<close>

record client =
  RPC_HOST :: jsstring
  RPC_PORT :: nat
  RPC_USER :: jsstring
  RPC_PASSWORD :: jsstring

text \<open>
  A request as \<open>http.request\<close> gets it, with the body that \<open>req.write\<close> sends. A
  response is its status code and the \<open>data\<close> events of its body, in order; each
  chunk is taken as the text that the runtime decodes it to.
\<close>

record request =
  auth :: jsstring
  host :: jsstring
  port :: nat
  http_method :: jsstring
  headers :: "(jsstring \<times> jsstring) list"
  body :: jsstring

record response =
  statusCode :: nat
  chunks :: "jsstring list"

text \<open>
  The promise that \<open>__send\<close> returns. Its reason of rejection is always a \<open>new
  Error(message)\<close>, kept as the message. \<open>resolve\<close> and \<open>reject\<close> settle a pending
  promise and leave a settled one as it is.
\<close>

datatype promise = Pending | Resolved jsval | Rejected jsstring

fun resolve :: "jsval \<Rightarrow> promise \<Rightarrow> promise" where
  "resolve v Pending = Resolved v"
| "resolve v p = p"

fun reject :: "jsstring \<Rightarrow> promise \<Rightarrow> promise" where
  "reject msg Pending = Rejected msg"
| "reject msg p = p"

text \<open>The three messages, each a template literal of the source.\<close>

definition client_error :: "jsstring \<Rightarrow> nat \<Rightarrow> jsstring" where
  "client_error name code =
     js ''[Client error] Failed to request method '' @ [0x27] @ name @ [0x27] @
     js '' with status code '' @ [0x27] @ show_nat code @ [0x27]"

definition server_error :: "jsstring \<Rightarrow> nat \<Rightarrow> jsstring" where
  "server_error name code =
     js ''[Server error] Failed to request method '' @ [0x27] @ name @ [0x27] @
     js '' with status code '' @ [0x27] @ show_nat code @ [0x27]"

definition parse_error :: "jsstring \<Rightarrow> jsstring" where
  "parse_error chunk = js ''failed to parse response '' @ [0x27] @ chunk @ [0x27] @ js ''.''"

text \<open>
  The listener of the \<open>data\<close> event:
  \<^verbatim>\<open>
  res.on('data', (chunk) => {
    try {
      const response = JSON.parse(chunk);
      resolve(response.result)
    } catch (error) {
      reject(new Error(`failed to parse response '${chunk}'.`))
    }
  });\<close>
\<close>

definition on_data :: "promise \<Rightarrow> jsstring \<Rightarrow> promise" where
  "on_data p chunk =
     (case JSON_parse chunk of
        Inl e \<Rightarrow> reject (parse_error chunk) p
      | Inr response \<Rightarrow>
          (case get_prop response (js ''result'') of
             Inl e \<Rightarrow> reject (parse_error chunk) p
           | Inr v \<Rightarrow> resolve v p))"

text \<open>
  The callback of \<open>http.request\<close>:
  \<^verbatim>\<open>
  (res) => {
    if (res.statusCode > 400 && res.statusCode < 500) {
      reject(new Error(`[Client error] Failed to request method '${method}' with status code '${res.statusCode}'`));
    } else if (res.statusCode > 500 && res.statusCode < 600) {
      reject(new Error(`[Server error] Failed to request method '${method}' with status code '${res.statusCode}'`));
    }
    res.on('data', (chunk) => { ... });
  }\<close>
  The listener then runs once for each chunk.
\<close>

definition on_response :: "jsstring \<Rightarrow> response \<Rightarrow> promise" where
  "on_response name res =
     foldl on_data
       (if 400 < statusCode res \<and> statusCode res < 500 then
          reject (client_error name (statusCode res)) Pending
        else if 500 < statusCode res \<and> statusCode res < 600 then
          reject (server_error name (statusCode res)) Pending
        else Pending)
       (chunks res)"

text \<open>
  What a call comes to: the state of its promise once the response is over, and the
  requests that went to the network.
\<close>

record call =
  promise :: promise
  requests :: "request list"

text \<open>
  \<^verbatim>\<open>
  __send(method, args = []) {
    if (!helper.isKnownMethod(method)) return Promise.reject(new Error('unknown method'));
    return new Promise((resolve, reject) => {
      const dataBinary = JSON.stringify({"jsonrpc": "1.0", "id": "curltest", "method": method, "params": args}, null, 0);
      const req = http.request({
        auth: `${this.RPC_USER}:${this.RPC_PASSWORD}`,
        host: this.RPC_HOST,
        port: this.RPC_PORT,
        method: 'POST',
        headers: { 'Content-type': 'text/plain' }
      }, (res) => { ... })
      req.write(dataBinary);
      req.end();
    });
  }\<close>
  \<open>args_opt\<close> is \<open>None\<close> when the caller leaves \<open>args\<close> out, and \<open>res\<close> is the response
  of the node to the request. A request that gets no response (a failure of the network)
  is not modelled.
\<close>

definition send :: "client \<Rightarrow> jsstring \<Rightarrow> jsval list option \<Rightarrow> response \<Rightarrow> call" where
  "send this name args_opt res =
     (let args = (case args_opt of None \<Rightarrow> [] | Some a \<Rightarrow> a) in
      if \<not> isKnownMethod name then
        \<lparr>promise = Rejected (js ''unknown method''), requests = []\<rparr>
      else
        (let dataBinary =
               SerializeJSONObject
                 [(js ''jsonrpc'', JString (js ''1.0'')),
                  (js ''id'', JString (js ''curltest'')),
                  (js ''method'', JString name),
                  (js ''params'', JArray args)];
             req = \<lparr>auth = RPC_USER this @ js '':'' @ RPC_PASSWORD this,
                    host = RPC_HOST this,
                    port = RPC_PORT this,
                    http_method = js ''POST'',
                    headers = [(js ''Content-type'', js ''text/plain'')],
                    body = dataBinary\<rparr>
         in \<lparr>promise = on_response name res, requests = [req]\<rparr>))"

section \<open>Arguments and their JSON image\<close>

text \<open>
  The notions in which the properties of the request body are stated. \<open>to_json v\<close> is the
  value that the text of \<open>v\<close> denotes: \<open>undefined\<close> becomes \<open>null\<close> as an element of an
  array (and as an argument), and a property whose value is \<open>undefined\<close> is left out of
  its object.
\<close>

fun to_json :: "jsval \<Rightarrow> jsval"
  and to_json_items :: "jsval list \<Rightarrow> jsval list"
  and to_json_members :: "(jsstring \<times> jsval) list \<Rightarrow> (jsstring \<times> jsval) list" where
  "to_json JUndefined = JNull"
| "to_json JNull = JNull"
| "to_json (JBool b) = JBool b"
| "to_json (JNumber q) = JNumber q"
| "to_json (JString s) = JString s"
| "to_json (JArray vs) = JArray (to_json_items vs)"
| "to_json (JObject kvs) = JObject (to_json_members kvs)"
| "to_json_items [] = []"
| "to_json_items (v # vs) = to_json v # to_json_items vs"
| "to_json_members [] = []"
| "to_json_members ((k, v) # kvs) =
     (if v = JUndefined then to_json_members kvs else (k, to_json v) # to_json_members kvs)"

text \<open>
  The values that the runtime can hold: every number is finite, a decimal fraction of at
  most 1074 digits behind the point, and every object has its properties as the runtime
  keeps them, each name once and in the order of enumeration.
\<close>

fun js_value :: "jsval \<Rightarrow> bool"
  and js_values :: "jsval list \<Rightarrow> bool"
  and js_members :: "(jsstring \<times> jsval) list \<Rightarrow> bool" where
  "js_value JUndefined = True"
| "js_value JNull = True"
| "js_value (JBool b) = True"
| "js_value (JNumber q) = js_number q"
| "js_value (JString s) = True"
| "js_value (JArray vs) = js_values vs"
| "js_value (JObject kvs) =
     (distinct (map fst kvs) \<and> sorted_wrt precedes (map fst kvs) \<and> js_members kvs)"
| "js_values [] = True"
| "js_values (v # vs) = (js_value v \<and> js_values vs)"
| "js_members [] = True"
| "js_members ((k, v) # kvs) = (js_value v \<and> js_members kvs)"

text \<open>The values in which \<open>undefined\<close> does not occur.\<close>

fun json_value :: "jsval \<Rightarrow> bool"
  and json_values :: "jsval list \<Rightarrow> bool"
  and json_members :: "(jsstring \<times> jsval) list \<Rightarrow> bool" where
  "json_value JUndefined = False"
| "json_value JNull = True"
| "json_value (JBool b) = True"
| "json_value (JNumber q) = True"
| "json_value (JString s) = True"
| "json_value (JArray vs) = json_values vs"
| "json_value (JObject kvs) = json_members kvs"
| "json_values [] = True"
| "json_values (v # vs) = (json_value v \<and> json_values vs)"
| "json_members [] = True"
| "json_members ((k, v) # kvs) = (json_value v \<and> json_members kvs)"

section \<open>Auxiliary definitions\<close>

text \<open>
  What can follow the text of a value inside a text that \<open>JSON.stringify\<close> writes: a
  comma, a closing bracket or brace, or the end.
\<close>

definition delim :: "jsstring \<Rightarrow> bool" where
  "delim r = (case r of [] \<Rightarrow> True | c # cs \<Rightarrow> c = 0x2C \<or> c = 0x5D \<or> c = 0x7D)"

text \<open>What ends a run of digits.\<close>

definition not_digit :: "jsstring \<Rightarrow> bool" where
  "not_digit r = (case r of [] \<Rightarrow> True | c # cs \<Rightarrow> \<not> is_digit c)"

text \<open>The automaton run over the tokens of a text, from a given state.\<close>

definition parse_from :: "pstate \<Rightarrow> jsstring \<Rightarrow> pstate option" where
  "parse_from st text = (case lex text of None \<Rightarrow> None | Some ts \<Rightarrow> run st ts)"

text \<open>The properties of an object, defined one after the other.\<close>

definition put_all :: "(jsstring \<times> jsval) list \<Rightarrow> (jsstring \<times> jsval) list \<Rightarrow> (jsstring \<times> jsval) list" where
  "put_all acc ms = foldl (\<lambda>a kv. obj_put (fst kv) (snd kv) a) acc ms"

text \<open>The text of an element of an array.\<close>

definition item_text :: "jsval \<Rightarrow> jsstring" where
  "item_text v = (case SerializeJSONProperty v of None \<Rightarrow> js ''null'' | Some t \<Rightarrow> t)"

section \<open>Properties\<close>

lemma unat_of_char: "unat (of_char c :: 16 word) = of_char c"
proof -
  have "(of_char c :: nat) < 256"
    by (metis of_char_mod_256 mod_less_divisor zero_less_numeral)
  then have "(of_char c :: nat) < 65536" by linarith
  then have "(of_char c :: nat) < 2 ^ LENGTH(16)" by simp
  then have "unat (of_nat (of_char c) :: 16 word) = of_char c"
    by (rule of_nat_inverse [OF refl])
  then show ?thesis by (simp add: of_nat_of_char)
qed

lemma of_char_word_eq_iff: "(of_char c :: 16 word) = of_char d \<longleftrightarrow> c = d"
  by (metis unat_of_char of_char_eq_iff)

lemma js_eq_iff: "js a = js b \<longleftrightarrow> a = b"
  unfolding js_def
  by (simp add: inj_map_eq_map inj_on_def of_char_word_eq_iff)

subsection \<open>Evaluation\<close>

lemmas json_eval =
  JSON_parse_def js_def lex_token_def is_ws_def is_digit_def lex_number_def lex_int_def
  lex_frac_def lex_exp_def lex_sign_def lex_literal_def digits_val_def digit_val_def
  scale_def obj_put_def precedes_def array_index_def hex4_def hex_val_def unescape_def

lemma known_getblockcount: "isKnownMethod (js ''getblockcount'')"
  by (simp add: isKnownMethod_def RPC_get_def RPC_def js_eq_iff)


lemma parse_not_found:
  \<open>JSON_parse (js ''{"result": null, "error": {"code": -5, "message": "not found"}}'') =
     Inr (JObject [(js ''result'', JNull),
       (js ''error'', JObject [(js ''code'', JNumber (- 5)),
                               (js ''message'', JString (js ''not found''))])])\<close>
  by (simp add: json_eval)

subsection \<open>The numbers of the runtime\<close>

text \<open>Every decimal fraction of at most 1074 digits behind the point is among them.\<close>

lemma integral_of_int: "integral (of_int i)"
  by (simp add: integral_def)

lemma places_integral: "integral q \<Longrightarrow> places f q = 0"
  by (cases f) simp_all

lemma places_least:
  "integral (q * 10 ^ n) \<Longrightarrow> n \<le> f \<Longrightarrow> integral (q * 10 ^ places f q)"
proof (induction f arbitrary: q n)
  case 0
  then show ?case by simp
next
  case (Suc f)
  show ?case
  proof (cases "integral q")
    case True
    then show ?thesis by simp
  next
    case False
    then obtain n' where n: "n = Suc n'" using Suc.prems(1) by (cases n) auto
    have "integral (q * 10 * 10 ^ places f (q * 10))"
      by (rule Suc.IH [of _ n']) (use Suc.prems n in \<open>simp_all add: mult.assoc\<close>)
    with False show ?thesis by (simp add: mult.assoc)
  qed
qed

lemma js_number_decimal: "n \<le> 1074 \<Longrightarrow> js_number (of_int i / 10 ^ n)"
proof -
  assume n: "n \<le> 1074"
  have "integral (\<bar>of_int i / 10 ^ n\<bar> * 10 ^ n)"
    using integral_of_int [of "\<bar>i\<bar>"] by (simp add: abs_divide)
  from this n show ?thesis unfolding js_number_def by (rule places_least)
qed

lemma js_number_of_int: "js_number (of_int i)"
  using js_number_decimal [of 0 i] by simp

lemma js_number_simps:
  "js_number 0" "js_number 1" "js_number (numeral k)" "js_number (- numeral k)"
  using js_number_of_int [of 0] js_number_of_int [of 1] js_number_of_int [of "numeral k"]
    js_number_of_int [of "- numeral k"]
  by simp_all

lemma js_number_tenth: "js_number (1 / 10)"
  using js_number_decimal [of 1 1] by simp

lemma Number_toString_1: "Number_toString 1 = [0x31]"
proof -
  have "places 1074 1 = 0" using places_integral [OF integral_of_int [of 1]] by simp
  moreover have "show_nat 1 = [0x31]" by (subst show_nat.simps) simp
  ultimately show ?thesis
    by (simp add: Number_toString_def unsigned_toString_def strip_zeros_def format_number_def)
qed

subsection \<open>The promise settles once\<close>

lemma on_data_settled: "p \<noteq> Pending \<Longrightarrow> on_data p c = p"
  by (cases p) (auto simp: on_data_def split: sum.splits)

lemma foldl_on_data_settled: "p \<noteq> Pending \<Longrightarrow> foldl on_data p cs = p"
  by (induction cs) (simp_all add: on_data_settled)

lemma on_data_settles: "on_data Pending c \<noteq> Pending"
  by (auto simp: on_data_def split: sum.splits)

lemma promise_send:
  "isKnownMethod m \<Longrightarrow> promise (send this m args res) = on_response m res"
  by (simp add: send_def Let_def)

lemma on_response_success:
  "\<not> (400 < sc \<and> sc < 500) \<Longrightarrow> \<not> (500 < sc \<and> sc < 600) \<Longrightarrow>
   on_response m \<lparr>statusCode = sc, chunks = c # cs\<rparr> = on_data Pending c"
  by (auto simp: on_response_def foldl_on_data_settled on_data_settles)


lemma on_response_client_error:
  "400 < statusCode res \<Longrightarrow> statusCode res < 500 \<Longrightarrow>
   on_response m res = Rejected (client_error m (statusCode res))"
  by (simp add: on_response_def foldl_on_data_settled)

lemma on_response_server_error:
  "500 < statusCode res \<Longrightarrow> statusCode res < 600 \<Longrightarrow>
   on_response m res = Rejected (server_error m (statusCode res))"
  by (simp add: on_response_def foldl_on_data_settled)

subsection \<open>The registry gate\<close>

text \<open>
  A name for which \<open>RPC[method]\<close> is \<open>undefined\<close> is rejected, and nothing goes to the
  network.
\<close>

lemma send_unknown:
  "RPC_get m = Missing \<Longrightarrow>
   send this m args res = \<lparr>promise = Rejected (js ''unknown method''), requests = []\<rparr>"
  by (simp add: send_def isKnownMethod_def)

text \<open>
  C3: every method name that is not in the registry is rejected with the error
  \<open>unknown method\<close> before any request is sent. The code misses the names that
  \<open>Object.prototype\<close> defines: \<open>valueOf\<close> is no property of the table, yet
  \<open>__send('valueOf', [])\<close> is not rejected at the gate, it sends one request, whose body
  names the method \<open>valueOf\<close>, and the promise is left to the response.
\<close>

theorem send_valueOf:
  \<open>js ''valueOf'' \<notin> fst ` set RPC \<and>
   send this (js ''valueOf'') (Some []) res =
     \<lparr>promise = on_response (js ''valueOf'') res,
      requests = [\<lparr>auth = RPC_USER this @ js '':'' @ RPC_PASSWORD this,
                   host = RPC_HOST this, port = RPC_PORT this, http_method = js ''POST'',
                   headers = [(js ''Content-type'', js ''text/plain'')],
                   body = js ''{"jsonrpc":"1.0","id":"curltest","method":"valueOf","params":[]}''\<rparr>]\<rparr>\<close>
proof -
  have absent: "map_of RPC (js ''valueOf'') = None"
    by (simp add: RPC_def js_eq_iff)
  then have known: "isKnownMethod (js ''valueOf'')"
    by (simp add: isKnownMethod_def RPC_get_def Object_prototype_def js_eq_iff)
  have \<open>SerializeJSONObject
          [(js ''jsonrpc'', JString (js ''1.0'')), (js ''id'', JString (js ''curltest'')),
           (js ''method'', JString (js ''valueOf'')), (js ''params'', JArray [])] =
        js ''{"jsonrpc":"1.0","id":"curltest","method":"valueOf","params":[]}''\<close>
    by (simp add: SerializeJSONObject_def QuoteJSONString_def quote_unit_def is_high_def
          is_low_def js_def)
  with known absent show ?thesis
    by (simp add: send_def Let_def map_of_eq_None_iff)
qed

text \<open>
  C10: the names \<open>toString\<close>, \<open>hasOwnProperty\<close>, \<open>constructor\<close> and \<open>__proto__\<close> are no
  properties of the registry table, \<open>isKnownMethod\<close> is true of each of them, and a call
  with such a name sends its request.
\<close>

theorem prototype_names_are_known:
  "js ''toString'' \<notin> fst ` set RPC \<and> isKnownMethod (js ''toString'') \<and>
     length (requests (send this (js ''toString'') args res)) = 1 \<and>
   js ''hasOwnProperty'' \<notin> fst ` set RPC \<and> isKnownMethod (js ''hasOwnProperty'') \<and>
     length (requests (send this (js ''hasOwnProperty'') args res)) = 1 \<and>
   js ''constructor'' \<notin> fst ` set RPC \<and> isKnownMethod (js ''constructor'') \<and>
     length (requests (send this (js ''constructor'') args res)) = 1 \<and>
   js ''__proto__'' \<notin> fst ` set RPC \<and> isKnownMethod (js ''__proto__'') \<and>
     length (requests (send this (js ''__proto__'') args res)) = 1"
proof -
  have absent: "map_of RPC (js ''toString'') = None" "map_of RPC (js ''hasOwnProperty'') = None"
    "map_of RPC (js ''constructor'') = None" "map_of RPC (js ''__proto__'') = None"
    by (simp_all add: RPC_def js_eq_iff)
  then have known: "isKnownMethod (js ''toString'')" "isKnownMethod (js ''hasOwnProperty'')"
    "isKnownMethod (js ''constructor'')" "isKnownMethod (js ''__proto__'')"
    by (simp_all add: isKnownMethod_def RPC_get_def Object_prototype_def js_eq_iff)
  from absent have "js ''toString'' \<notin> fst ` set RPC" "js ''hasOwnProperty'' \<notin> fst ` set RPC"
    "js ''constructor'' \<notin> fst ` set RPC" "js ''__proto__'' \<notin> fst ` set RPC"
    by (simp_all add: map_of_eq_None_iff)
  with known show ?thesis by (simp add: send_def Let_def)
qed

subsection \<open>The check of the arguments\<close>

lemma isValidArgsForMethod_never_true: "isValidArgsForMethod m args \<noteq> Inr True"
  by (simp add: isValidArgsForMethod_def Let_def split: sum.splits)

text \<open>
  C7: \<open>isValidArgsForMethod\<close> returns false for every method and every argument list,
  and never raises an error. It never returns true, but it raises: the descriptor of
  \<open>getbestblockhash\<close> has no property \<open>args\<close>, so \<open>specifiedArgs\<close> is \<open>undefined\<close> and
  \<open>isValidArgsForMethod('getbestblockhash', [])\<close> throws a TypeError at
  \<open>specifiedArgs.length\<close>.
\<close>

theorem isValidArgsForMethod_getbestblockhash:
  "isValidArgsForMethod (js ''getbestblockhash'') (Some []) = Inl TypeError"
  by (simp add: isValidArgsForMethod_def isKnownMethod_def RPC_get_def RPC_def js_eq_iff)

subsection \<open>The status code\<close>

text \<open>
  The two guards of the callback: a status from 401 to 499 rejects with the message of
  a client error, a status from 501 to 599 with that of a server error, whatever the
  chunks are.
\<close>

lemma client_error_rejects:
  "isKnownMethod m \<Longrightarrow> 400 < statusCode res \<Longrightarrow> statusCode res < 500 \<Longrightarrow>
   promise (send this m args res) = Rejected (client_error m (statusCode res))"
  by (simp add: promise_send on_response_client_error)

lemma server_error_rejects:
  "isKnownMethod m \<Longrightarrow> 500 < statusCode res \<Longrightarrow> statusCode res < 600 \<Longrightarrow>
   promise (send this m args res) = Rejected (server_error m (statusCode res))"
  by (simp add: promise_send on_response_server_error)

text \<open>
  C5: every status in [400,500), 400 itself included, rejects with a client error. The
  guard is \<open>statusCode > 400\<close>, so the status 400 goes on to the listener of the body:
  with the body below the call resolves with \<open>null\<close>, and with no body at all the promise
  stays pending.
\<close>

theorem status_400_resolves:
  \<open>promise (send this (js ''getblockcount'') (Some [])
      \<lparr>statusCode = 400,
       chunks = [js ''{"result": null, "error": {"code": -5, "message": "not found"}}'']\<rparr>)
    = Resolved JNull \<and>
   promise (send this (js ''getblockcount'') (Some []) \<lparr>statusCode = 400, chunks = []\<rparr>)
    = Pending\<close>
  by (simp add: promise_send [OF known_getblockcount] on_response_def on_data_def
        parse_not_found)

text \<open>
  C6: every status in [500,600), 500 itself included, rejects with a server error. The
  guard is \<open>statusCode > 500\<close>, so the status 500 goes on to the listener of the body:
  with the body below the call resolves with \<open>null\<close>, and with no body at all the promise
  stays pending.
\<close>

theorem status_500_resolves:
  \<open>promise (send this (js ''getblockcount'') (Some [])
      \<lparr>statusCode = 500,
       chunks = [js ''{"result": null, "error": {"code": -5, "message": "not found"}}'']\<rparr>)
    = Resolved JNull \<and>
   promise (send this (js ''getblockcount'') (Some []) \<lparr>statusCode = 500, chunks = []\<rparr>)
    = Pending\<close>
  by (simp add: promise_send [OF known_getblockcount] on_response_def on_data_def
        parse_not_found)

subsection \<open>The body\<close>



lemma parse_error_contains: "sublist b (parse_error b)"
  unfolding parse_error_def sublist_def by (metis append.assoc)

text \<open>
  C9, as stated: for every known method, the status 200 with a body that is not valid
  JSON rejects the call with an error whose message contains the body. The only listener
  is the one for the event \<open>data\<close>, and it parses each chunk on its own. The body
  \<open>{"result": 42}x\<close> is not valid JSON; when it arrives as \<open>{"result": 42}\<close> and \<open>x\<close> the
  call resolves with 42. The empty body is not valid JSON either; it arrives without an
  event \<open>data\<close>, and the call neither resolves nor rejects.
\<close>

theorem invalid_body_resolves:
  \<open>JSON_parse (concat [js ''{"result": 42}'', js ''x'']) = Inl SyntaxError \<and>
   promise (send \<lparr>RPC_HOST = js ''127.0.0.1'', RPC_PORT = 8332, RPC_USER = js ''user'',
                   RPC_PASSWORD = js ''pw''\<rparr>
      (js ''getblockcount'') (Some [])
      \<lparr>statusCode = 200, chunks = [js ''{"result": 42}'', js ''x'']\<rparr>)
    = Resolved (JNumber 42) \<and>
   JSON_parse (concat []) = Inl SyntaxError \<and>
   promise (send \<lparr>RPC_HOST = js ''127.0.0.1'', RPC_PORT = 8332, RPC_USER = js ''user'',
                   RPC_PASSWORD = js ''pw''\<rparr>
      (js ''getblockcount'') (Some []) \<lparr>statusCode = 200, chunks = []\<rparr>)
    = Pending\<close>
proof -
  have first: \<open>JSON_parse (js ''{"result": 42}'') = Inr (JObject [(js ''result'', JNumber 42)])\<close>
    by (simp add: json_eval)
  have \<open>promise (send \<lparr>RPC_HOST = js ''127.0.0.1'', RPC_PORT = 8332, RPC_USER = js ''user'',
                   RPC_PASSWORD = js ''pw''\<rparr>
      (js ''getblockcount'') (Some [])
      \<lparr>statusCode = 200, chunks = [js ''{"result": 42}'', js ''x'']\<rparr>)
    = Resolved (JNumber 42)\<close>
    by (simp add: promise_send [OF known_getblockcount] on_response_success on_data_def first)
  moreover have \<open>JSON_parse (concat [js ''{"result": 42}'', js ''x'']) = Inl SyntaxError\<close>
    by (simp add: json_eval)
  moreover have "JSON_parse (concat []) = Inl SyntaxError"
    by (simp add: json_eval)
  moreover have "promise (send \<lparr>RPC_HOST = js ''127.0.0.1'', RPC_PORT = 8332,
                   RPC_USER = js ''user'', RPC_PASSWORD = js ''pw''\<rparr>
      (js ''getblockcount'') (Some []) \<lparr>statusCode = 200, chunks = []\<rparr>) = Pending"
    by (simp add: promise_send [OF known_getblockcount] on_response_def)
  ultimately show ?thesis by simp
qed

text \<open>
  C9, amended: for every known method, the status 200 with a body that arrives in one or
  more chunks, the first of which is not empty and is not valid JSON (such as the body
  \<open>not-json\<close> in one chunk), rejects the call with the error
  \<open>failed to parse response '...'.\<close>, whose message contains the first chunk: the whole
  body when it arrives in one chunk.
\<close>

theorem decode_error:
  assumes "isKnownMethod m"
  shows "JSON_parse (js ''not-json'') = Inl SyntaxError \<and>
         (\<forall>c cs. c \<noteq> [] \<and> JSON_parse c = Inl SyntaxError \<longrightarrow>
              promise (send this m (Some []) \<lparr>statusCode = 200, chunks = c # cs\<rparr>)
                = Rejected (parse_error c) \<and>
              sublist c (parse_error c) \<and>
              (cs = [] \<longrightarrow> sublist (concat (c # cs)) (parse_error c)))"
proof -
  have "JSON_parse (js ''not-json'') = Inl SyntaxError"
    by (simp add: json_eval)
  moreover have "promise (send this m (Some []) \<lparr>statusCode = 200, chunks = c # cs\<rparr>)
                   = Rejected (parse_error c)"
    if "JSON_parse c = Inl SyntaxError" for c cs
    using that by (simp add: promise_send [OF assms] on_response_success on_data_def)
  moreover have "cs = [] \<longrightarrow> sublist (concat (c # cs)) (parse_error c)" for c :: jsstring and cs :: "jsstring list"
    using parse_error_contains by simp
  ultimately show ?thesis
    using parse_error_contains by blast
qed

theorem decode_error_witness:
  "isKnownMethod (js ''getblockcount'') \<and>
   js ''not-json'' \<noteq> [] \<and>
   JSON_parse (js ''not-json'') = Inl SyntaxError \<and>
   promise (send \<lparr>RPC_HOST = js ''127.0.0.1'', RPC_PORT = 8332, RPC_USER = js ''user'',
                   RPC_PASSWORD = js ''pw''\<rparr>
      (js ''getblockcount'') (Some []) \<lparr>statusCode = 200, chunks = [js ''not-json'']\<rparr>)
     = Rejected (js ''failed to parse response '' @ [0x27] @ js ''not-json'' @ [0x27] @ js ''.'') \<and>
   sublist (js ''not-json'') (parse_error (js ''not-json'')) \<and>
   sublist (concat [js ''not-json''])
     (js ''failed to parse response '' @ [0x27] @ js ''not-json'' @ [0x27] @ js ''.'')"
proof -
  note r = decode_error [OF known_getblockcount]
  have n: "js ''not-json'' \<noteq> []" by (simp add: js_def)
  note p = r [THEN conjunct1]
  have "promise (send \<lparr>RPC_HOST = js ''127.0.0.1'', RPC_PORT = 8332, RPC_USER = js ''user'',
                   RPC_PASSWORD = js ''pw''\<rparr>
      (js ''getblockcount'') (Some []) \<lparr>statusCode = 200, chunks = [js ''not-json'']\<rparr>)
     = Rejected (parse_error (js ''not-json'')) \<and>
     sublist (js ''not-json'') (parse_error (js ''not-json'')) \<and>
     sublist (concat [js ''not-json'']) (parse_error (js ''not-json''))"
    using r [THEN conjunct2] n p by blast
  with known_getblockcount n p show ?thesis by (simp add: parse_error_def)
qed

text \<open>
  C1, as stated: a response of status 200 with the body
  \<open>{"result": null, "error": {"code": -5, "message": "not found"}}\<close> rejects the call
  with an error that carries the code -5. The code never reads the property \<open>error\<close>:
  the call resolves with \<open>null\<close>.
\<close>

theorem error_field_resolves:
  \<open>promise (send \<lparr>RPC_HOST = js ''127.0.0.1'', RPC_PORT = 8332, RPC_USER = js ''user'',
                   RPC_PASSWORD = js ''pw''\<rparr>
      (js ''getblockcount'') (Some [])
      \<lparr>statusCode = 200,
       chunks = [js ''{"result": null, "error": {"code": -5, "message": "not found"}}'']\<rparr>)
    = Resolved JNull\<close>
  by (simp add: promise_send [OF known_getblockcount] on_response_def on_data_def
        parse_not_found)

text \<open>
  C1, amended: for every known method and every status below 400 or from 600 on, when
  the first chunk parses to an object with a property \<open>error\<close> that is not \<open>null\<close>, the
  call resolves with the property \<open>result\<close> of that object (\<open>undefined\<close> when it has
  none); the property \<open>error\<close> has no effect.
\<close>

theorem error_field_ignored:
  assumes "isKnownMethod m"
    and "sc < 400 \<or> 600 \<le> sc"
    and "JSON_parse c = Inr (JObject kvs)"
    and "map_of kvs (js ''error'') = Some e" and "e \<noteq> JNull"
  shows "promise (send this m args \<lparr>statusCode = sc, chunks = c # cs\<rparr>) =
           Resolved (case map_of kvs (js ''result'') of Some v \<Rightarrow> v | None \<Rightarrow> JUndefined)"
proof -
  have "\<not> (400 < sc \<and> sc < 500)" "\<not> (500 < sc \<and> sc < 600)"
    using assms(2) by auto
  with assms(1,3-) show ?thesis
    by (simp add: promise_send on_response_success on_data_def)
qed

theorem error_field_ignored_witness:
  \<open>isKnownMethod (js ''getblockcount'') \<and> ((200::nat) < 400 \<or> 600 \<le> (200::nat)) \<and>
   JSON_parse (js ''{"result": null, "error": {"code": -5, "message": "not found"}}'') =
     Inr (JObject [(js ''result'', JNull),
       (js ''error'', JObject [(js ''code'', JNumber (- 5)),
                               (js ''message'', JString (js ''not found''))])]) \<and>
   promise (send \<lparr>RPC_HOST = js ''127.0.0.1'', RPC_PORT = 8332, RPC_USER = js ''user'',
                   RPC_PASSWORD = js ''pw''\<rparr>
      (js ''getblockcount'') (Some [])
      \<lparr>statusCode = 200,
       chunks = [js ''{"result": null, "error": {"code": -5, "message": "not found"}}'']\<rparr>)
    = Resolved JNull\<close>
proof -
  have e: "map_of [(js ''result'', JNull),
       (js ''error'', JObject [(js ''code'', JNumber (- 5)),
                               (js ''message'', JString (js ''not found''))])] (js ''error'') =
     Some (JObject [(js ''code'', JNumber (- 5)), (js ''message'', JString (js ''not found''))])"
    by (simp add: js_eq_iff)
  show ?thesis
    using error_field_ignored [OF known_getblockcount _ parse_not_found e, of 200]
      known_getblockcount parse_not_found
    by simp
qed



subsection \<open>JSON.parse reads what JSON.stringify writes\<close>

paragraph \<open>Strings\<close>

lemma digit_cases: "d < 10 \<Longrightarrow> d \<in> {0, 1, 2, 3, 4, 5, 6, 7, 8, 9::nat}"
  by (simp, arith)

lemma hex_val_hex_digit: "n < 16 \<Longrightarrow> hex_val (hex_digit n) = Some n"
proof (cases "n < 10")
  case True
  from digit_cases [OF True] show ?thesis
    by (elim insertE emptyE; simp add: hex_val_def hex_digit_def)
next
  case False
  assume "n < 16"
  with False have "n - 10 \<in> {0, 1, 2, 3, 4, 5}" by (simp, arith)
  then have "n \<in> {10, 11, 12, 13, 14, 15}" using False by (simp, arith)
  then show ?thesis
    by (elim insertE emptyE; simp add: hex_val_def hex_digit_def)
qed

lemma nibbles:
  "((u div 4096 * 16 + u div 256 mod 16) * 16 + u div 16 mod 16) * 16 + u mod 16 = (u::nat)"
proof -
  define x where "x = u div 16"
  define y where "y = x div 16"
  have a: "u div 256 = y"
    using div_mult2_eq [of u 16 16] by (simp add: x_def y_def)
  have b: "u div 4096 = y div 16"
    using div_mult2_eq [of u 16 256] div_mult2_eq [of x 16 16] by (simp add: x_def y_def)
  have "y div 16 * 16 + y mod 16 = y" by (rule div_mult_mod_eq)
  moreover have "y * 16 + x mod 16 = x" unfolding y_def by (rule div_mult_mod_eq)
  moreover have "x * 16 + u mod 16 = u" unfolding x_def by (rule div_mult_mod_eq)
  ultimately show ?thesis
    unfolding a b x_def [symmetric] by simp
qed

lemma hex4_UnicodeEscape:
  "hex4 (hex_digit (unat c div 4096)) (hex_digit (unat c div 256 mod 16))
        (hex_digit (unat c div 16 mod 16)) (hex_digit (unat c mod 16)) = Some c"
proof -
  have u: "unat c < 65536" using unsigned_less [of c] by simp
  then have "unat c div 4096 < 16" by simp
  then have "hex4 (hex_digit (unat c div 4096)) (hex_digit (unat c div 256 mod 16))
        (hex_digit (unat c div 16 mod 16)) (hex_digit (unat c mod 16)) =
     Some (of_nat (((unat c div 4096 * 16 + unat c div 256 mod 16) * 16 + unat c div 16 mod 16) * 16
             + unat c mod 16))"
    by (simp only: hex4_def hex_val_hex_digit mod_less_divisor zero_less_numeral
          prod.case option.case)
  then show ?thesis
    by (simp only: nibbles) simp
qed

lemma lex_string_UnicodeEscape:
  "lex_string (UnicodeEscape c @ r) =
     (case lex_string r of None \<Rightarrow> None | Some (s, rest) \<Rightarrow> Some (c # s, rest))"
  by (simp add: UnicodeEscape_def hex4_UnicodeEscape)

lemma lex_string_raw:
  "c \<noteq> 0x22 \<Longrightarrow> c \<noteq> 0x5C \<Longrightarrow> \<not> c < 0x20 \<Longrightarrow>
   lex_string (c # r) =
     (case lex_string r of None \<Rightarrow> None | Some (s, rest) \<Rightarrow> Some (c # s, rest))"
  by simp

lemma lex_string_quote_unit:
  "lex_string (quote_unit c @ r) =
     (case lex_string r of None \<Rightarrow> None | Some (s, rest) \<Rightarrow> Some (c # s, rest))"
  unfolding quote_unit_def
  by (simp add: unescape_def lex_string_UnicodeEscape; blast)

lemma surrogate_raw:
  assumes "is_high c \<or> is_low c"
  shows "c \<noteq> 0x22" and "c \<noteq> 0x5C" and "\<not> c < 0x20"
proof -
  from assms have "0xD800 \<le> unat c"
    by (auto simp: is_high_def is_low_def word_le_nat_alt)
  then show "c \<noteq> 0x22" and "c \<noteq> 0x5C" and "\<not> c < 0x20"
    by (auto simp: word_less_nat_alt)
qed

lemma lex_string_quote_units:
  "lex_string (quote_units s @ r) =
     (case lex_string r of None \<Rightarrow> None | Some (s', rest) \<Rightarrow> Some (s @ s', rest))"
proof (induction s rule: quote_units.induct)
  case 1
  show ?case by (simp split: option.split)
next
  case (2 c)
  show ?case
    by (cases "is_high c \<or> is_low c")
       (simp_all add: lex_string_UnicodeEscape lex_string_quote_unit split: option.split)
next
  case (3 c d cs)
  let ?tail = "case lex_string r of None \<Rightarrow> None | Some (s', rest) \<Rightarrow> Some (d # cs @ s', rest)"
  let ?goal = "case lex_string r of None \<Rightarrow> None | Some (s', rest) \<Rightarrow> Some (c # d # cs @ s', rest)"
  show ?case
  proof (cases "is_high c \<and> is_low d")
    case True
    have "lex_string (c # d # quote_units cs @ r) =
       (case lex_string (quote_units cs @ r) of
          None \<Rightarrow> None | Some (s, rest) \<Rightarrow> Some (c # d # s, rest))"
      using True surrogate_raw [of c] surrogate_raw [of d]
      by (simp only: lex_string_raw split: option.split) (simp split: option.split)
    also have "lex_string (quote_units cs @ r) =
       (case lex_string r of None \<Rightarrow> None | Some (s', rest) \<Rightarrow> Some (cs @ s', rest))"
      using True by (rule "3.IH"(1))
    finally show ?thesis using True by (simp split: option.split)
  next
    case False
    show ?thesis
    proof (cases "is_high c \<or> is_low c")
      case True
      have t: "lex_string (quote_units (d # cs) @ r) = ?tail"
        using "3.IH"(2) [OF False True] by (simp split: option.split)
      have q: "quote_units (c # d # cs) = UnicodeEscape c @ quote_units (d # cs)"
        using False True by auto
      show ?thesis
        unfolding q append_assoc lex_string_UnicodeEscape t by (simp split: option.split)
    next
      case nosur: False
      have t: "lex_string (quote_units (d # cs) @ r) = ?tail"
        using "3.IH"(3) [OF False nosur] by (simp split: option.split)
      have q: "quote_units (c # d # cs) = quote_unit c @ quote_units (d # cs)"
        using False nosur by auto
      show ?thesis
        unfolding q append_assoc lex_string_quote_unit t by (simp split: option.split)
    qed
  qed
qed

lemma lex_string_QuoteJSONString:
  "lex_string (quote_units s @ 0x22 # rest) = Some (s, rest)"
  by (simp add: lex_string_quote_units)

paragraph \<open>Numbers\<close>

lemma digit_char:
  assumes "d < 10"
  shows "is_digit (0x30 + of_nat d)" and "digit_val (0x30 + of_nat d) = d"
    and "(0x30 + of_nat d = (0x30 :: 16 word)) = (d = 0)"
  using digit_cases [OF assms]
  by (elim insertE emptyE; simp add: is_digit_def digit_val_def)+

lemma is_digit_plain:
  assumes "is_digit c"
  shows "c \<noteq> 0x7B" "c \<noteq> 0x7D" "c \<noteq> 0x5B" "c \<noteq> 0x5D" "c \<noteq> 0x2C" "c \<noteq> 0x3A"
    "c \<noteq> 0x22" "c \<noteq> 0x2D" "\<not> is_ws c"
  using assms by (auto simp: is_digit_def is_ws_def)

lemma show_nat_digits: "list_all is_digit (show_nat n)"
proof (induction n rule: show_nat.induct)
  case (1 n)
  show ?case
  proof (cases "n < 10")
    case True
    then show ?thesis by (subst show_nat.simps) (simp add: digit_char)
  next
    case False
    with 1 show ?thesis by (subst show_nat.simps) (simp add: digit_char)
  qed
qed

lemma show_nat_nonempty: "show_nat n \<noteq> []"
  by (subst show_nat.simps) simp

lemma digits_val_snoc: "digits_val (ds @ [d]) = 10 * digits_val ds + digit_val d"
  by (simp add: digits_val_def)

lemma digits_val_show_nat: "digits_val (show_nat n) = n"
proof (induction n rule: show_nat.induct)
  case (1 n)
  show ?case
  proof (cases "n < 10")
    case True
    then show ?thesis by (subst show_nat.simps) (simp add: digit_char digits_val_def)
  next
    case False
    with 1 show ?thesis
      by (subst show_nat.simps) (simp add: digit_char digits_val_snoc)
  qed
qed

lemma hd_show_nat: "0 < n \<Longrightarrow> hd (show_nat n) \<noteq> 0x30"
proof (induction n rule: show_nat.induct)
  case (1 n)
  show ?case
  proof (cases "n < 10")
    case True
    have "(0x30 + of_nat n :: 16 word) \<noteq> 0x30"
      using digit_char(3) [OF True] "1.prems" by blast
    with True show ?thesis by (subst show_nat.simps) (simp del: add_cancel_left_right)
  next
    case False
    then have "0 < n div 10" by simp
    with 1 False show ?thesis
      by (subst show_nat.simps) (simp add: show_nat_nonempty)
  qed
qed

lemma show_nat_0: "show_nat 0 = [0x30]"
  by (subst show_nat.simps) simp

lemma digits_val_Nil: "digits_val [] = 0"
  by (simp add: digits_val_def)

lemma not_digit_simps:
  "not_digit []" "not_digit (0x2E # r)" "not_digit (0x65 # r)"
  by (simp_all add: not_digit_def is_digit_def)

lemma delim_not_digit: "delim r \<Longrightarrow> not_digit r"
  by (cases r) (auto simp: delim_def not_digit_def is_digit_def)

lemma span_digits:
  assumes "list_all is_digit ds" and "not_digit r"
  shows "takeWhile is_digit (ds @ r) = ds" and "dropWhile is_digit (ds @ r) = r"
proof -
  have r: "takeWhile is_digit r = []" "dropWhile is_digit r = r"
    using assms(2) by (cases r; simp add: not_digit_def)+
  have all: "\<And>x. x \<in> set ds \<Longrightarrow> is_digit x"
    using assms(1) by (simp add: list_all_iff)
  show "takeWhile is_digit (ds @ r) = ds"
    using all r by (simp add: takeWhile_append2)
  show "dropWhile is_digit (ds @ r) = r"
    using all r by (simp add: dropWhile_append2)
qed

lemma lex_int_zero: "lex_int (0x30 # r) = Some ([0x30], r)"
  by (simp add: lex_int_def)

lemma lex_int_digits:
  assumes "ds \<noteq> []" and "list_all is_digit ds" and "hd ds \<noteq> 0x30" and "not_digit r"
  shows "lex_int (ds @ r) = Some (ds, r)"
proof -
  obtain c cs where cs: "ds = c # cs" using assms(1) by (cases ds) auto
  have "c \<noteq> 0x30" "is_digit c" using assms(2,3) cs by auto
  then show ?thesis
    using span_digits [OF assms(2,4)] by (simp add: lex_int_def cs)
qed

lemma lex_frac_digits:
  assumes "fp \<noteq> []" and "list_all is_digit fp" and "not_digit r"
  shows "lex_frac (0x2E # fp @ r) = Some (fp, r)"
  using span_digits [OF assms(2,3)] assms(1) by (simp add: lex_frac_def)

lemma lex_frac_none:
  "delim r \<Longrightarrow> lex_frac r = Some ([], r)"
  "lex_frac (0x65 # r) = Some ([], 0x65 # r)"
  by (cases r; auto simp: delim_def lex_frac_def)+

lemma lex_exp_none: "delim r \<Longrightarrow> lex_exp r = Some (0, r)"
  by (cases r) (auto simp: delim_def lex_exp_def)

lemma lex_exp_digits:
  assumes "delim r"
  shows "lex_exp (0x65 # 0x2B # show_nat m @ r) = Some (int m, r)"
    and "lex_exp (0x65 # 0x2D # show_nat m @ r) = Some (- int m, r)"
  using span_digits [OF show_nat_digits delim_not_digit [OF assms], of m]
  by (simp_all add: lex_exp_def lex_sign_def show_nat_nonempty digits_val_show_nat)

lemma lex_number_parts:
  assumes "is_digit c"
    and "lex_int (c # cs) = Some (ip, r1)" and "lex_frac r1 = Some (fp, r2)"
    and "lex_exp r2 = Some (e, r3)"
  shows "lex_number (c # cs) =
           Some (scale (of_nat (digits_val ip) + of_nat (digits_val fp) / 10 ^ length fp) e, r3)"
proof -
  have "c \<noteq> 0x2D" using assms(1) by (rule is_digit_plain)
  then show ?thesis using assms(2-4) by (simp add: lex_number_def)
qed

lemma lex_number_minus:
  assumes "is_digit c" and "lex_number (c # cs) = Some (v, r)"
  shows "lex_number (0x2D # c # cs) = Some (- v, r)"
proof -
  have c: "c \<noteq> 0x2D" using assms(1) by (rule is_digit_plain)
  show ?thesis
    using assms(2) c
    by (auto simp: lex_number_def split: option.splits)
qed

lemma scale_powi: "scale x e = x * 10 powi e"
  by (simp add: scale_def power_int_def field_simps)

lemma digits_val_append:
  "digits_val (a @ b) = digits_val a * 10 ^ length b + digits_val b"
  by (induction b rule: rev_induct)
     (simp_all add: digits_val_Nil digits_val_snoc flip: append_assoc)

lemma digits_val_zeros: "digits_val (replicate m 0x30) = 0"
  by (induction m) (simp_all add: digits_val_Nil digits_val_def digit_val_def)


lemma lex_number_digit:
  assumes "t \<noteq> []" and "is_digit (hd t)"
    and "lex_int t = Some (ip, r1)" and "lex_frac r1 = Some (fp, r2)"
    and "lex_exp r2 = Some (e, r3)"
  shows "lex_number t =
           Some ((of_nat (digits_val ip) + of_nat (digits_val fp) / 10 ^ length fp) * 10 powi e, r3)"
proof -
  obtain c cs where t: "t = c # cs" using assms(1) by (cases t) auto
  show ?thesis
    using lex_number_parts [of c cs ip r1 fp r2 e r3] assms(2-5)
    by (simp add: t scale_powi)
qed

lemma lex_number_negative:
  assumes "t \<noteq> []" and "is_digit (hd t)" and "lex_number t = Some (v, r)"
  shows "lex_number (0x2D # t) = Some (- v, r)"
proof -
  obtain c cs where t: "t = c # cs" using assms(1) by (cases t) auto
  show ?thesis
    using lex_number_minus [of c cs v r] assms(2,3) by (simp add: t)
qed

lemma zeros_digits: "list_all is_digit (replicate m 0x30)"
  by (simp add: list_all_iff is_digit_def)

lemma lex_number_plain:
  assumes "sig \<noteq> []" and "list_all is_digit sig" and "hd sig \<noteq> 0x30" and "delim r"
  shows "lex_number (sig @ replicate m 0x30 @ r) = Some (of_nat (digits_val sig) * 10 ^ m, r)"
proof -
  let ?ip = "sig @ replicate m 0x30"
  have ip: "?ip \<noteq> []" "list_all is_digit ?ip" "hd ?ip \<noteq> 0x30"
    using assms(1-3) zeros_digits [of m] by simp_all
  have i: "lex_int (?ip @ r) = Some (?ip, r)"
    by (rule lex_int_digits [OF ip delim_not_digit [OF assms(4)]])
  have h: "?ip @ r \<noteq> []" "is_digit (hd (?ip @ r))"
    using assms(1,2) by (cases sig; simp)+
  show ?thesis
    using lex_number_digit [OF h i lex_frac_none(1) [OF assms(4)] lex_exp_none [OF assms(4)]]
    by (simp add: digits_val_append digits_val_zeros digits_val_Nil)
qed

lemma lex_number_point:
  assumes "sig \<noteq> []" and "list_all is_digit sig" and "hd sig \<noteq> 0x30" and "delim r"
    and "0 < m" and "m < length sig"
  shows "lex_number (take m sig @ 0x2E # drop m sig @ r) =
           Some (of_nat (digits_val sig) / 10 ^ (length sig - m), r)"
proof -
  let ?ip = "take m sig" and ?fp = "drop m sig"
  have all: "list_all is_digit ?ip" "list_all is_digit ?fp"
    using assms(2) by (auto simp: list_all_iff dest: in_set_takeD in_set_dropD)
  have ip: "?ip \<noteq> []" "hd ?ip \<noteq> 0x30"
    using assms(1,3,5) by (cases sig; cases m; simp)+
  have fp: "?fp \<noteq> []" using assms(6) by simp
  have i: "lex_int (?ip @ 0x2E # ?fp @ r) = Some (?ip, 0x2E # ?fp @ r)"
    by (rule lex_int_digits [OF ip(1) all(1) ip(2) not_digit_simps(2)])
  have f: "lex_frac (0x2E # ?fp @ r) = Some (?fp, r)"
    by (rule lex_frac_digits [OF fp all(2) delim_not_digit [OF assms(4)]])
  have h: "?ip @ 0x2E # ?fp @ r \<noteq> []" "is_digit (hd (?ip @ 0x2E # ?fp @ r))"
    using assms(1,2,5) by (cases sig; cases m; simp)+
  have v: "digits_val sig = digits_val ?ip * 10 ^ (length sig - m) + digits_val ?fp"
    using digits_val_append [of ?ip ?fp] by simp
  have "lex_number (?ip @ 0x2E # ?fp @ r) =
          Some ((of_nat (digits_val ?ip) + of_nat (digits_val ?fp) / 10 ^ (length sig - m)) * 10 powi 0, r)"
    using lex_number_digit [OF h i f lex_exp_none [OF assms(4)]] by simp
  then show ?thesis by (simp add: v add_divide_distrib)
qed

lemma lex_number_small:
  assumes "sig \<noteq> []" and "list_all is_digit sig" and "delim r"
  shows "lex_number (0x30 # 0x2E # replicate m 0x30 @ sig @ r) =
           Some (of_nat (digits_val sig) / 10 ^ (m + length sig), r)"
proof -
  let ?fp = "replicate m 0x30 @ sig"
  have fp: "?fp \<noteq> []" "list_all is_digit ?fp"
    using assms(1,2) zeros_digits [of m] by simp_all
  have f: "lex_frac (0x2E # ?fp @ r) = Some (?fp, r)"
    by (rule lex_frac_digits [OF fp delim_not_digit [OF assms(3)]])
  have h: "0x30 # 0x2E # ?fp @ r \<noteq> []" "is_digit (hd (0x30 # 0x2E # ?fp @ r))"
    by (simp_all add: is_digit_def)
  have "lex_number (0x30 # 0x2E # ?fp @ r) =
          Some ((of_nat (digits_val [0x30]) + of_nat (digits_val ?fp) / 10 ^ length ?fp) * 10 powi 0, r)"
    by (rule lex_number_digit [OF h lex_int_zero f lex_exp_none [OF assms(3)]])
  then show ?thesis
    using digits_val_zeros [of 1]
    by (simp add: digits_val_append digits_val_zeros)
qed

lemma lex_exp_signed:
  assumes "delim r"
  shows "lex_exp (0x65 # (if e < 0 then 0x2D else 0x2B) # show_nat (nat \<bar>e\<bar>) @ r) = Some (e, r)"
proof (cases "e < 0")
  case True
  then show ?thesis using lex_exp_digits(2) [OF assms, of "nat (- e)"] by simp
next
  case False
  then show ?thesis using lex_exp_digits(1) [OF assms, of "nat e"] by simp
qed

lemma lex_number_exponent:
  assumes "sig \<noteq> []" and "list_all is_digit sig" and "hd sig \<noteq> 0x30" and "delim r"
  shows "lex_number (take 1 sig @ (if int (length sig) = 1 then [] else 0x2E # drop 1 sig) @
                     0x65 # (if e < 0 then 0x2D else 0x2B) # show_nat (nat \<bar>e\<bar>) @ r) =
           Some (of_nat (digits_val sig) / 10 ^ (length sig - 1) * 10 powi e, r)"
proof -
  let ?x = "0x65 # (if e < 0 then 0x2D else 0x2B) # show_nat (nat \<bar>e\<bar>) @ r"
  obtain c cs where sig: "sig = c # cs" using assms(1) by (cases sig) auto
  have c: "is_digit c" "c \<noteq> 0x30" "list_all is_digit cs" using assms(2,3) by (simp_all add: sig)
  have x: "lex_exp ?x = Some (e, r)" by (rule lex_exp_signed [OF assms(4)])
  have nd: "not_digit ?x" by (rule not_digit_simps)
  show ?thesis
  proof (cases "cs = []")
    case True
    have i: "lex_int ([c] @ ?x) = Some ([c], ?x)"
      by (rule lex_int_digits [OF _ _ _ nd]) (simp_all add: c)
    have h: "[c] @ ?x \<noteq> []" "is_digit (hd ([c] @ ?x))" using c by simp_all
    show ?thesis
      using lex_number_digit [OF h i lex_frac_none(2) x]
      by (simp add: sig True digits_val_Nil)
  next
    case False
    have i: "lex_int ([c] @ 0x2E # cs @ ?x) = Some ([c], 0x2E # cs @ ?x)"
      by (rule lex_int_digits [OF _ _ _ not_digit_simps(2)]) (simp_all add: c)
    have f: "lex_frac (0x2E # cs @ ?x) = Some (cs, ?x)"
      by (rule lex_frac_digits [OF False c(3) nd])
    have h: "[c] @ 0x2E # cs @ ?x \<noteq> []" "is_digit (hd ([c] @ 0x2E # cs @ ?x))" using c by simp_all
    have v: "digits_val (c # cs) = digits_val [c] * 10 ^ length cs + digits_val cs"
      using digits_val_append [of "[c]" cs] by simp
    show ?thesis
      using lex_number_digit [OF h i f x] False
      by (simp add: sig v add_divide_distrib)
  qed
qed

lemma lex_number_format_number:
  assumes "sig \<noteq> []" and "list_all is_digit sig" and "hd sig \<noteq> 0x30" and "delim r"
  shows "lex_number (format_number sig n @ r) =
           Some (of_nat (digits_val sig) * 10 powi (n - int (length sig)), r)"
proof -
  let ?k = "int (length sig)"
  have k: "0 < ?k" using assms(1) by simp
  consider (plain) "?k \<le> n" "n \<le> 21"
    | (point) "\<not> ?k \<le> n" "0 < n" "n \<le> 21"
    | (small) "- 6 < n" "n \<le> 0"
    | (exponent) "\<not> (?k \<le> n \<and> n \<le> 21)" "\<not> (0 < n \<and> n \<le> 21)" "\<not> (- 6 < n \<and> n \<le> 0)"
    by linarith
  then show ?thesis
  proof cases
    case plain
    have "10 powi (n - ?k) = (10::rat) ^ nat (n - ?k)"
      using plain by (simp add: power_int_def)
    then show ?thesis
      using lex_number_plain [OF assms, of "nat (n - ?k)"] plain
      by (simp add: format_number_def Let_def)
  next
    case point
    have m: "0 < nat n" "nat n < length sig" using point by simp_all
    have "length sig - nat n = nat (?k - n)" using point by simp
    moreover have "10 powi (n - ?k) = inverse ((10::rat) ^ nat (?k - n))"
      using point by (simp add: power_int_def power_inverse inverse_eq_divide power_one_over)
    ultimately show ?thesis
      using lex_number_point [OF assms m] point
      by (simp add: format_number_def divide_inverse Let_def)
  next
    case small
    have "nat (- n) + length sig = nat (?k - n)" using small by simp
    moreover have "10 powi (n - ?k) = inverse ((10::rat) ^ nat (?k - n))"
      using small k by (simp add: power_int_def power_inverse inverse_eq_divide power_one_over)
    moreover have "\<not> ?k \<le> n" using small k by linarith
    ultimately show ?thesis
      using lex_number_small [OF assms(1,2,4), of "nat (- n)"] small
      by (simp add: format_number_def divide_inverse Let_def)
  next
    case exponent
    have "(10::rat) powi (n - ?k) = 10 powi (n - 1) / 10 powi (?k - 1)"
      using power_int_diff [of "10::rat" "n - 1" "?k - 1"] by simp
    moreover have "(10::rat) powi (?k - 1) = 10 ^ (length sig - 1)"
      using k by (simp add: power_int_def nat_diff_distrib)
    moreover have "format_number sig n =
        take 1 sig @ (if ?k = 1 then [] else 0x2E # drop 1 sig) @
        0x65 # (if n - 1 < 0 then 0x2D else 0x2B) # show_nat (nat \<bar>n - 1\<bar>)"
      unfolding format_number_def Let_def by (simp only: exponent if_False)
    ultimately show ?thesis
      using lex_number_exponent [OF assms, of "n - 1"] by simp
  qed
qed


lemma format_number_head:
  assumes "sig \<noteq> []" and "list_all is_digit sig"
  shows "format_number sig n \<noteq> []" and "is_digit (hd (format_number sig n))"
proof -
  obtain c cs where sig: "sig = c # cs" using assms(1) by (cases sig) auto
  have c: "is_digit c" using assms(2) by (simp add: sig)
  have z: "is_digit 0x30" by (simp add: is_digit_def)
  show "format_number sig n \<noteq> []"
    by (simp add: format_number_def Let_def sig take_Cons')
  show "is_digit (hd (format_number sig n))"
    using c z by (simp add: format_number_def Let_def sig take_Cons')
qed

lemma strip_zeros_split:
  "ds = strip_zeros ds @ replicate (length ds - length (strip_zeros ds)) 0x30"
proof -
  let ?P = "\<lambda>c::16 word. c = 0x30"
  let ?t = "takeWhile ?P (rev ds)"
  have "\<forall>y \<in> set ?t. y = 0x30" by (auto dest: set_takeWhileD)
  then have t: "replicate (length ?t) 0x30 = ?t" by (rule replicate_length_same)
  have "rev (dropWhile ?P (rev ds)) @ rev ?t = rev (?t @ dropWhile ?P (rev ds))"
    by (simp only: rev_append)
  also have "\<dots> = ds" by (simp only: takeWhile_dropWhile_id rev_rev_ident)
  finally have ds: "ds = strip_zeros ds @ rev ?t" by (simp add: strip_zeros_def)
  have "length ds = length (strip_zeros ds) + length ?t"
    using arg_cong [OF ds, of length] by simp
  then have "length ds - length (strip_zeros ds) = length ?t" by simp
  moreover have "rev ?t = replicate (length ?t) 0x30"
    using arg_cong [OF t, of rev] by simp
  ultimately show ?thesis using ds by simp
qed

lemma strip_zeros_nonempty: "ds \<noteq> [] \<Longrightarrow> hd ds \<noteq> 0x30 \<Longrightarrow> strip_zeros ds \<noteq> []"
  by (cases ds) (auto simp: strip_zeros_def dropWhile_eq_Nil_conv)

lemma hd_strip_zeros: "strip_zeros ds \<noteq> [] \<Longrightarrow> hd (strip_zeros ds) = hd ds"
  using arg_cong [OF strip_zeros_split [of ds], of hd] by simp

lemma strip_zeros_digits: "list_all is_digit ds \<Longrightarrow> list_all is_digit (strip_zeros ds)"
  by (auto simp: list_all_iff strip_zeros_def dest: set_dropWhileD)

lemma unsigned_toString_parts:
  assumes "0 < q" and "integral (q * 10 ^ places 1074 q)"
  obtains sig n where "unsigned_toString q = format_number sig n"
    and "sig \<noteq> []" and "list_all is_digit sig" and "hd sig \<noteq> 0x30"
    and "of_nat (digits_val sig) * 10 powi (n - int (length sig)) = q"
proof -
  define j where "j = places 1074 q"
  define N where "N = nat \<lfloor>q * 10 ^ j\<rfloor>"
  define ds where "ds = show_nat N"
  define sig where "sig = strip_zeros ds"
  define z where "z = length ds - length sig"
  have "0 \<le> q * 10 ^ j" using assms(1) by simp
  then have "0 \<le> \<lfloor>q * 10 ^ j\<rfloor>" by simp
  then have "rat_of_nat N = of_int \<lfloor>q * 10 ^ j\<rfloor>" by (simp add: N_def)
  then have N: "rat_of_nat N = q * 10 ^ j"
    using assms(2) by (simp add: integral_def j_def)
  have "0 < q * 10 ^ j" using assms(1) by simp
  then have "0 < rat_of_nat N" using N by simp
  then have pos: "0 < N" by simp
  have ds: "ds \<noteq> []" "list_all is_digit ds" "hd ds \<noteq> 0x30"
    using show_nat_nonempty show_nat_digits hd_show_nat [OF pos] by (simp_all add: ds_def)
  have sig: "sig \<noteq> []" "list_all is_digit sig"
    using strip_zeros_nonempty [OF ds(1,3)] strip_zeros_digits [OF ds(2)] by (simp_all add: sig_def)
  have hd: "hd sig \<noteq> 0x30"
    using hd_strip_zeros [of ds] sig(1) ds(3) by (simp add: sig_def)
  have split: "ds = sig @ replicate z 0x30"
    using strip_zeros_split [of ds] by (simp add: sig_def z_def)
  have "digits_val ds = digits_val sig * 10 ^ z"
    using arg_cong [OF split, of digits_val] by (simp add: digits_val_append digits_val_zeros)
  then have v: "N = digits_val sig * 10 ^ z"
    by (simp add: ds_def digits_val_show_nat)
  have len: "int (length ds) - int j - int (length sig) = int z - int j"
    using arg_cong [OF split, of length] by simp
  have "rat_of_nat (digits_val sig) * 10 powi (int z - int j) =
          rat_of_nat (digits_val sig) * 10 ^ z / 10 ^ j"
    using power_int_diff [of "10::rat" "int z" "int j"] by simp
  also have "\<dots> = rat_of_nat N / 10 ^ j" by (simp add: v)
  also have "\<dots> = q" by (simp add: N)
  finally have q: "rat_of_nat (digits_val sig) *
      10 powi (int (length ds) - int j - int (length sig)) = q" by (simp only: len)
  have u: "unsigned_toString q = format_number sig (int (length ds) - int j)"
    by (simp add: unsigned_toString_def Let_def j_def N_def ds_def sig_def)
  show thesis by (rule that [OF u sig hd q])
qed

lemma lex_number_unsigned:
  assumes "0 < q" and "integral (q * 10 ^ places 1074 q)" and "delim r"
  shows "lex_number (unsigned_toString q @ r) = Some (q, r)"
    and "unsigned_toString q \<noteq> []" and "is_digit (hd (unsigned_toString q))"
proof -
  obtain sig n where u: "unsigned_toString q = format_number sig n"
    and sig: "sig \<noteq> []" "list_all is_digit sig" "hd sig \<noteq> 0x30"
    and q: "of_nat (digits_val sig) * 10 powi (n - int (length sig)) = q"
    using assms(1,2) by (rule unsigned_toString_parts)
  show "lex_number (unsigned_toString q @ r) = Some (q, r)"
    using lex_number_format_number [OF sig assms(3), of n] by (simp add: u q)
  show "unsigned_toString q \<noteq> []" "is_digit (hd (unsigned_toString q))"
    using format_number_head [OF sig(1,2), of n] by (simp_all add: u)
qed

lemma Number_toString_head:
  assumes "js_number q"
  obtains c cs where "Number_toString q = c # cs" and "c = 0x2D \<or> is_digit c"
proof -
  have "Number_toString q \<noteq> [] \<and>
        (hd (Number_toString q) = 0x2D \<or> is_digit (hd (Number_toString q)))"
  proof (cases "q = 0")
    case True
    then show ?thesis by (simp add: Number_toString_def is_digit_def)
  next
    case False
    show ?thesis
    proof (cases "q < 0")
      case True
      then show ?thesis by (simp add: Number_toString_def)
    next
      case pos: False
      have "0 < q" using False pos by simp
      moreover from this have "integral (q * 10 ^ places 1074 q)"
        using assms by (simp add: js_number_def)
      ultimately show ?thesis
        using lex_number_unsigned(2,3) [of q "[]"] False pos
        by (simp add: Number_toString_def delim_def)
    qed
  qed
  then show thesis using that by (cases "Number_toString q") auto
qed

lemma lex_number_Number_toString:
  assumes "js_number q" and "delim r"
  shows "lex_number (Number_toString q @ r) = Some (q, r)"
proof -
  consider (zero) "q = 0" | (neg) "q < 0" | (pos) "0 < q" by linarith
  then show ?thesis
  proof cases
    case zero
    have h: "0x30 # r \<noteq> []" "is_digit (hd (0x30 # r))" by (simp_all add: is_digit_def)
    show ?thesis
      using lex_number_digit [OF h lex_int_zero lex_frac_none(1) [OF assms(2)]
                                 lex_exp_none [OF assms(2)]] digits_val_zeros [of 1]
      by (simp add: Number_toString_def zero digits_val_Nil)
  next
    case neg
    have p: "0 < - q" using neg by simp
    have i: "integral (- q * 10 ^ places 1074 (- q))"
      using assms(1) neg by (simp add: js_number_def)
    let ?u = "unsigned_toString (- q)"
    have h: "?u @ r \<noteq> []" "is_digit (hd (?u @ r))"
      using lex_number_unsigned(2,3) [OF p i assms(2)] by simp_all
    show ?thesis
      using lex_number_negative [OF h lex_number_unsigned(1) [OF p i assms(2)]] neg
      by (simp add: Number_toString_def)
  next
    case pos
    have i: "integral (q * 10 ^ places 1074 q)"
      using assms(1) pos by (simp add: js_number_def)
    show ?thesis
      using lex_number_unsigned(1) [OF pos i assms(2)] pos
      by (simp add: Number_toString_def)
  qed
qed

lemma lex_token_Number_toString:
  assumes "js_number q" and "delim r"
  shows "lex_token (Number_toString q @ r) = Some (TNumber q, r)"
proof -
  obtain c cs where cs: "Number_toString q = c # cs" and c: "c = 0x2D \<or> is_digit c"
    using assms(1) by (rule Number_toString_head)
  have plain: "c \<noteq> 0x7B" "c \<noteq> 0x7D" "c \<noteq> 0x5B" "c \<noteq> 0x5D" "c \<noteq> 0x2C" "c \<noteq> 0x3A" "c \<noteq> 0x22"
    using c is_digit_plain [of c] by auto
  have "lex_number (c # cs @ r) = Some (q, r)"
    using lex_number_Number_toString [OF assms] cs by simp
  with plain c show ?thesis
    by (simp add: lex_token_def cs)
qed

paragraph \<open>Tokens\<close>

lemma json_value_to_json:
  "json_value v \<Longrightarrow> to_json v = v"
  "json_values vs \<Longrightarrow> to_json_items vs = vs"
  "json_members kvs \<Longrightarrow> to_json_members kvs = kvs"
  by (induction v and vs and kvs rule: to_json_to_json_items_to_json_members.induct) auto

lemma to_json_items_map: "to_json_items vs = map to_json vs"
  by (induction vs) simp_all

lemma JSON_parse_parse_from:
  "JSON_parse text =
     (case parse_from (Expect []) text of Some (Done v) \<Rightarrow> Inr v | _ \<Rightarrow> Inl SyntaxError)"
  by (simp add: JSON_parse_def parse_from_def split: option.split)

lemma parse_from_Nil: "parse_from st [] = Some st"
  by (simp add: parse_from_def)

lemma parse_from_token:
  assumes "\<not> is_ws c" and "lex_token (c # cs) = Some (tok, rest)"
  shows "parse_from st (c # cs) =
           (case step st tok of None \<Rightarrow> None | Some st' \<Rightarrow> parse_from st' rest)"
  using assms by (simp add: parse_from_def split: option.split)

lemma parse_from_char:
  "parse_from st (0x7B # r) = (case step st TLBrace of None \<Rightarrow> None | Some st' \<Rightarrow> parse_from st' r)"
  "parse_from st (0x7D # r) = (case step st TRBrace of None \<Rightarrow> None | Some st' \<Rightarrow> parse_from st' r)"
  "parse_from st (0x5B # r) = (case step st TLBracket of None \<Rightarrow> None | Some st' \<Rightarrow> parse_from st' r)"
  "parse_from st (0x5D # r) = (case step st TRBracket of None \<Rightarrow> None | Some st' \<Rightarrow> parse_from st' r)"
  "parse_from st (0x2C # r) = (case step st TComma of None \<Rightarrow> None | Some st' \<Rightarrow> parse_from st' r)"
  "parse_from st (0x3A # r) = (case step st TColon of None \<Rightarrow> None | Some st' \<Rightarrow> parse_from st' r)"
  by (rule parse_from_token; simp add: is_ws_def lex_token_def)+

lemma parse_from_string:
  "parse_from st (QuoteJSONString s @ r) =
     (case step st (TString s) of None \<Rightarrow> None | Some st' \<Rightarrow> parse_from st' r)"
  unfolding QuoteJSONString_def append_Cons append_assoc
  by (rule parse_from_token) (simp_all add: is_ws_def lex_token_def lex_string_QuoteJSONString)

lemma parse_from_number:
  assumes "js_number q" and "delim r"
  shows "parse_from st (Number_toString q @ r) =
     (case step st (TNumber q) of None \<Rightarrow> None | Some st' \<Rightarrow> parse_from st' r)"
proof -
  have tok: "lex_token (Number_toString q @ r) = Some (TNumber q, r)"
    using assms by (rule lex_token_Number_toString)
  obtain c cs where cs: "Number_toString q @ r = c # cs"
    using tok by (cases "Number_toString q @ r") (simp_all add: lex_token_def)
  have "\<not> is_ws c"
    using tok unfolding cs
    by (auto simp: lex_token_def is_ws_def lex_literal_def js_def is_digit_def split: if_splits)
  then show ?thesis
    using tok unfolding cs by (rule parse_from_token)
qed

lemma parse_from_literal:
  "parse_from st (js ''null'' @ r) =
     (case step st TNull of None \<Rightarrow> None | Some st' \<Rightarrow> parse_from st' r)"
  "parse_from st (js ''true'' @ r) =
     (case step st TTrue of None \<Rightarrow> None | Some st' \<Rightarrow> parse_from st' r)"
  "parse_from st (js ''false'' @ r) =
     (case step st TFalse of None \<Rightarrow> None | Some st' \<Rightarrow> parse_from st' r)"
  unfolding js_def
  by (simp; rule parse_from_token; simp add: is_ws_def lex_token_def lex_literal_def is_digit_def js_def)+

paragraph \<open>Arrays and objects\<close>

lemma SerializeJSONProperty_None: "SerializeJSONProperty v = None \<longleftrightarrow> v = JUndefined"
  by (cases v) simp_all

lemma array_items_map: "array_items vs = map item_text vs"
  by (induction vs) (simp_all add: item_text_def split: option.split)

lemma join_Cons: "join (t # ts) = t @ concat (map ((#) 0x2C) ts)"
  by (induction ts arbitrary: t) simp_all

lemma delim_simps:
  "delim []" "delim (0x2C # r)" "delim (0x5D # r)" "delim (0x7D # r)"
  by (simp_all add: delim_def)

lemma delim_commas:
  "delim (concat (map ((#) 0x2C) ts) @ 0x5D # r)"
  "delim (concat (map ((#) 0x2C) ts) @ 0x7D # r)"
  by (cases ts; simp add: delim_def)+

lemma parse_items:
  assumes "\<And>v t fs r. v \<in> set vs \<Longrightarrow> SerializeJSONProperty v = Some t \<Longrightarrow> delim r \<Longrightarrow>
             parse_from (Expect fs) (t @ r) = parse_from (after_value (to_json v) fs) r"
  shows "parse_from (ArrAfter acc fs) (concat (map ((#) 0x2C) (array_items vs)) @ 0x5D # r) =
         parse_from (after_value (JArray (acc @ to_json_items vs)) fs) r"
  using assms
proof (induction vs arbitrary: acc)
  case Nil
  show ?case by (simp add: parse_from_char)
next
  case (Cons v vs)
  let ?rest = "concat (map ((#) 0x2C) (array_items vs)) @ 0x5D # r"
  have d: "delim ?rest" by (rule delim_commas)
  have item: "parse_from (Expect (InArray acc # fs)) (item_text v @ ?rest) =
              parse_from (ArrAfter (acc @ [to_json v]) fs) ?rest"
  proof (cases "SerializeJSONProperty v")
    case None
    then have "v = JUndefined" by (simp add: SerializeJSONProperty_None)
    then show ?thesis by (simp add: item_text_def parse_from_literal)
  next
    case (Some t)
    then show ?thesis
      using Cons.prems [of v t ?rest "InArray acc # fs"] d by (simp add: item_text_def)
  qed
  have "parse_from (ArrAfter acc fs)
          (concat (map ((#) 0x2C) (array_items (v # vs))) @ 0x5D # r) =
        parse_from (ArrAfter acc fs) (0x2C # item_text v @ ?rest)"
    by (simp add: array_items_map)
  also have "\<dots> = parse_from (Expect (InArray acc # fs)) (item_text v @ ?rest)"
    by (simp add: parse_from_char)
  also note item
  also have "parse_from (ArrAfter (acc @ [to_json v]) fs) ?rest =
             parse_from (after_value (JArray ((acc @ [to_json v]) @ to_json_items vs)) fs) r"
    by (rule Cons.IH) (rule Cons.prems, simp_all)
  finally show ?case by simp
qed

lemma parse_member:
  assumes "parse_from (Expect (InObject acc k # fs)) (t @ r) =
           parse_from (after_value (to_json v) (InObject acc k # fs)) r"
  shows "parse_from (ObjKey acc fs) (QuoteJSONString k @ 0x3A # t @ r) =
         parse_from (ObjAfter (obj_put k (to_json v) acc) fs) r"
  using assms by (simp add: parse_from_string parse_from_char)

lemma parse_first_member:
  assumes "parse_from (Expect (InObject [] k # fs)) (t @ r) =
           parse_from (after_value (to_json v) (InObject [] k # fs)) r"
  shows "parse_from (ObjOpen fs) (QuoteJSONString k @ 0x3A # t @ r) =
         parse_from (ObjAfter (obj_put k (to_json v) []) fs) r"
  using assms by (simp add: parse_from_string parse_from_char)

lemma parse_members:
  assumes "\<And>k v t fs r. (k, v) \<in> set kvs \<Longrightarrow> SerializeJSONProperty v = Some t \<Longrightarrow> delim r \<Longrightarrow>
             parse_from (Expect fs) (t @ r) = parse_from (after_value (to_json v) fs) r"
  shows "parse_from (ObjAfter acc fs) (concat (map ((#) 0x2C) (object_members kvs)) @ 0x7D # r) =
         parse_from (after_value (JObject (put_all acc (to_json_members kvs))) fs) r"
  using assms
proof (induction kvs arbitrary: acc)
  case Nil
  show ?case by (simp add: parse_from_char put_all_def)
next
  case (Cons kv kvs)
  obtain k v where kv: "kv = (k, v)" by (cases kv)
  let ?rest = "concat (map ((#) 0x2C) (object_members kvs)) @ 0x7D # r"
  have prem: "parse_from (Expect fs') (t @ r') = parse_from (after_value (to_json v') fs') r'"
    if "(k', v') \<in> set kvs" "SerializeJSONProperty v' = Some t" "delim r'" for k' v' t fs' r'
    using that Cons.prems [of k' v' t r' fs'] by simp
  have IH: "parse_from (ObjAfter acc' fs) ?rest =
            parse_from (after_value (JObject (put_all acc' (to_json_members kvs))) fs) r" for acc'
    by (rule Cons.IH) (rule prem)
  show ?case
  proof (cases "SerializeJSONProperty v")
    case None
    then have "v = JUndefined" by (simp add: SerializeJSONProperty_None)
    then show ?thesis using IH [of acc] by (simp add: kv)
  next
    case (Some t)
    then have nu: "v \<noteq> JUndefined" by auto
    have "parse_from (Expect (InObject acc k # fs)) (t @ ?rest) =
          parse_from (after_value (to_json v) (InObject acc k # fs)) ?rest"
      by (rule Cons.prems [of k v]) (simp_all add: kv Some delim_commas)
    then have "parse_from (ObjKey acc fs) (QuoteJSONString k @ 0x3A # t @ ?rest) =
          parse_from (ObjAfter (obj_put k (to_json v) acc) fs) ?rest"
      by (rule parse_member)
    then have "parse_from (ObjAfter acc fs)
                 (concat (map ((#) 0x2C) (object_members (kv # kvs))) @ 0x7D # r) =
               parse_from (ObjAfter (obj_put k (to_json v) acc) fs) ?rest"
      by (simp add: kv Some parse_from_char)
    then show ?thesis
      using IH [of "obj_put k (to_json v) acc"] nu by (simp add: kv put_all_def)
  qed
qed

lemma parse_all_members:
  assumes "\<And>k v t fs r. (k, v) \<in> set kvs \<Longrightarrow> SerializeJSONProperty v = Some t \<Longrightarrow> delim r \<Longrightarrow>
             parse_from (Expect fs) (t @ r) = parse_from (after_value (to_json v) fs) r"
  shows "parse_from (ObjOpen fs) (join (object_members kvs) @ 0x7D # r) =
         parse_from (after_value (JObject (put_all [] (to_json_members kvs))) fs) r"
  using assms
proof (induction kvs)
  case Nil
  show ?case by (simp add: parse_from_char put_all_def)
next
  case (Cons kv kvs)
  obtain k v where kv: "kv = (k, v)" by (cases kv)
  let ?rest = "concat (map ((#) 0x2C) (object_members kvs)) @ 0x7D # r"
  have prem: "parse_from (Expect fs') (t @ r') = parse_from (after_value (to_json v') fs') r'"
    if "(k', v') \<in> set kvs" "SerializeJSONProperty v' = Some t" "delim r'" for k' v' t fs' r'
    using that Cons.prems [of k' v' t r' fs'] by simp
  show ?case
  proof (cases "SerializeJSONProperty v")
    case None
    then have "v = JUndefined" by (simp add: SerializeJSONProperty_None)
    moreover have "parse_from (ObjOpen fs) (join (object_members kvs) @ 0x7D # r) =
         parse_from (after_value (JObject (put_all [] (to_json_members kvs))) fs) r"
      by (rule Cons.IH) (rule prem)
    ultimately show ?thesis by (simp add: kv)
  next
    case (Some t)
    then have nu: "v \<noteq> JUndefined" by auto
    have "parse_from (Expect (InObject [] k # fs)) (t @ ?rest) =
          parse_from (after_value (to_json v) (InObject [] k # fs)) ?rest"
      by (rule Cons.prems [of k v]) (simp_all add: kv Some delim_commas)
    then have "parse_from (ObjOpen fs) (QuoteJSONString k @ 0x3A # t @ ?rest) =
          parse_from (ObjAfter (obj_put k (to_json v) []) fs) ?rest"
      by (rule parse_first_member)
    moreover have "parse_from (ObjAfter (obj_put k (to_json v) []) fs) ?rest =
       parse_from (after_value (JObject (put_all (obj_put k (to_json v) []) (to_json_members kvs))) fs) r"
      by (rule parse_members) (rule prem)
    ultimately show ?thesis
      using nu by (simp add: kv Some join_Cons put_all_def)
  qed
qed

lemma obj_insert_last:
  "(\<And>k'. k' \<in> fst ` set kvs \<Longrightarrow> precedes k' k) \<Longrightarrow> obj_insert k v kvs = kvs @ [(k, v)]"
  by (induction kvs) auto

lemma obj_put_last:
  assumes "k \<notin> fst ` set kvs" and "\<And>k'. k' \<in> fst ` set kvs \<Longrightarrow> precedes k' k"
  shows "obj_put k v kvs = kvs @ [(k, v)]"
  using assms by (simp add: obj_put_def map_of_eq_None_iff obj_insert_last)

lemma put_all_append:
  "distinct (map fst (acc @ ms)) \<Longrightarrow> sorted_wrt precedes (map fst (acc @ ms)) \<Longrightarrow>
   put_all acc ms = acc @ ms"
proof (induction ms arbitrary: acc)
  case Nil
  show ?case by (simp add: put_all_def)
next
  case (Cons kv ms)
  have "obj_put (fst kv) (snd kv) acc = acc @ [kv]"
  proof -
    have "fst kv \<notin> fst ` set acc" using Cons.prems(1) by auto
    moreover have "precedes k' (fst kv)" if "k' \<in> fst ` set acc" for k'
      using Cons.prems(2) that by (auto simp: sorted_wrt_append)
    ultimately have "obj_put (fst kv) (snd kv) acc = acc @ [(fst kv, snd kv)]"
      by (rule obj_put_last)
    then show ?thesis by simp
  qed
  moreover have "put_all (acc @ [kv]) ms = (acc @ [kv]) @ ms"
    using Cons.prems by (intro Cons.IH) simp_all
  ultimately show ?case by (simp add: put_all_def)
qed

lemma to_json_members_keys: "k \<in> fst ` set (to_json_members kvs) \<Longrightarrow> k \<in> fst ` set kvs"
  by (induction kvs) (force split: if_splits)+

lemma to_json_members_ordered:
  "distinct (map fst kvs) \<Longrightarrow> sorted_wrt precedes (map fst kvs) \<Longrightarrow>
   distinct (map fst (to_json_members kvs)) \<and> sorted_wrt precedes (map fst (to_json_members kvs))"
proof (induction kvs)
  case Nil
  show ?case by simp
next
  case (Cons kv kvs)
  obtain k v where kv: "kv = (k, v)" by (cases kv)
  from Cons have IH: "distinct (map fst (to_json_members kvs))"
    "sorted_wrt precedes (map fst (to_json_members kvs))" by simp_all
  have "k \<notin> fst ` set (to_json_members kvs)"
    using Cons.prems(1) to_json_members_keys [of k kvs] by (auto simp: kv)
  moreover have "precedes k k'" if "k' \<in> fst ` set (to_json_members kvs)" for k'
  proof -
    have "k' \<in> fst ` set kvs" using that by (rule to_json_members_keys)
    then show ?thesis using Cons.prems(2) by (auto simp: kv)
  qed
  ultimately show ?case using IH by (auto simp: kv)
qed

lemma put_all_to_json_members:
  "distinct (map fst kvs) \<Longrightarrow> sorted_wrt precedes (map fst kvs) \<Longrightarrow>
   put_all [] (to_json_members kvs) = to_json_members kvs"
  using put_all_append [of "[]" "to_json_members kvs"] to_json_members_ordered [of kvs]
  by simp

lemma js_values_set: "js_values vs \<Longrightarrow> v \<in> set vs \<Longrightarrow> js_value v"
  by (induction vs) auto

lemma js_members_set: "js_members kvs \<Longrightarrow> (k, v) \<in> set kvs \<Longrightarrow> js_value v"
  by (induction kvs) auto

lemma ArrOpen_first:
  assumes "step (Expect (InArray [] # fs)) tok = step (ArrOpen fs) tok"
    and "parse_from (Expect (InArray [] # fs)) text =
         (case step (Expect (InArray [] # fs)) tok of None \<Rightarrow> None | Some st' \<Rightarrow> parse_from st' rest)"
    and "parse_from (ArrOpen fs) text =
         (case step (ArrOpen fs) tok of None \<Rightarrow> None | Some st' \<Rightarrow> parse_from st' rest)"
  shows "parse_from (ArrOpen fs) text = parse_from (Expect (InArray [] # fs)) text"
  using assms by simp

text \<open>The first token of the text of a value never closes an array.\<close>

lemma parse_from_ArrOpen:
  assumes "js_value v" and "SerializeJSONProperty v = Some t" and "delim r"
  shows "parse_from (ArrOpen fs) (t @ r) = parse_from (Expect (InArray [] # fs)) (t @ r)"
proof (cases v)
  case JUndefined
  with assms show ?thesis by simp
next
  case JNull
  with assms show ?thesis by (auto simp: parse_from_literal)
next
  case (JBool b)
  with assms show ?thesis by (auto simp: parse_from_literal)
next
  case (JNumber q)
  with assms show ?thesis by (auto simp: parse_from_number)
next
  case (JString s)
  with assms show ?thesis by (auto simp: parse_from_string)
next
  case (JArray vs)
  with assms show ?thesis by (auto simp: parse_from_char)
next
  case (JObject kvs)
  with assms show ?thesis by (auto simp: parse_from_char)
qed

lemma parse_value:
  "js_value v \<Longrightarrow> SerializeJSONProperty v = Some t \<Longrightarrow> delim r \<Longrightarrow>
   parse_from (Expect fs) (t @ r) = parse_from (after_value (to_json v) fs) r"
proof (induction v arbitrary: t r fs)
  case JUndefined
  then show ?case by simp
next
  case JNull
  then show ?case by (auto simp: parse_from_literal)
next
  case (JBool b)
  then show ?case by (auto simp: parse_from_literal)
next
  case (JNumber q)
  then show ?case by (auto simp: parse_from_number)
next
  case (JString s)
  then show ?case by (auto simp: parse_from_string)
next
  case (JArray vs)
  have elem: "parse_from (Expect fs') (t' @ r') = parse_from (after_value (to_json v) fs') r'"
    if "v \<in> set vs" "SerializeJSONProperty v = Some t'" "delim r'" for v t' r' fs'
    using that JArray.IH [of v t' r' fs'] JArray.prems(1) js_values_set [of vs v] by simp
  show ?case
  proof (cases vs)
    case Nil
    with JArray.prems show ?thesis by (auto simp: parse_from_char)
  next
    case (Cons v vs')
    let ?rest = "concat (map ((#) 0x2C) (array_items vs')) @ 0x5D # r"
    have v: "js_value v" using JArray.prems(1) Cons by simp
    have first: "parse_from (Expect (InArray [] # fs)) (item_text v @ ?rest) =
                 parse_from (ArrAfter [to_json v] fs) ?rest"
    proof (cases "SerializeJSONProperty v")
      case None
      then have "v = JUndefined" by (simp add: SerializeJSONProperty_None)
      then show ?thesis by (simp add: item_text_def parse_from_literal)
    next
      case (Some t')
      then show ?thesis
        using elem [of v t' ?rest "InArray [] # fs"] Cons
        by (simp add: item_text_def delim_commas)
    qed
    have open_first: "parse_from (ArrOpen fs) (item_text v @ ?rest) =
                      parse_from (Expect (InArray [] # fs)) (item_text v @ ?rest)"
    proof (cases "SerializeJSONProperty v")
      case None
      then show ?thesis by (simp add: item_text_def parse_from_literal)
    next
      case (Some t')
      then show ?thesis
        using parse_from_ArrOpen [OF v Some delim_commas(1)] by (simp add: item_text_def)
    qed
    have rest: "parse_from (ArrAfter [to_json v] fs) ?rest =
                parse_from (after_value (JArray ([to_json v] @ to_json_items vs')) fs) r"
      by (rule parse_items) (rule elem, simp_all add: Cons)
    have "t = 0x5B # item_text v @ concat (map ((#) 0x2C) (array_items vs')) @ [0x5D]"
      using JArray.prems(2) Cons by (simp add: array_items_map join_Cons)
    then have "parse_from (Expect fs) (t @ r) = parse_from (ArrOpen fs) (item_text v @ ?rest)"
      by (simp add: parse_from_char)
    with open_first first rest show ?thesis by (simp add: Cons)
  qed
next
  case (JObject kvs)
  have elem: "parse_from (Expect fs') (t' @ r') = parse_from (after_value (to_json v) fs') r'"
    if "(k, v) \<in> set kvs" "SerializeJSONProperty v = Some t'" "delim r'" for k v t' r' fs'
  proof -
    have "v \<in> Basic_BNFs.snds (k, v)" by simp
    moreover have "js_value v" using JObject.prems(1) that(1) js_members_set by auto
    ultimately show ?thesis using JObject.IH [OF that(1)] that by blast
  qed
  have "parse_from (ObjOpen fs) (join (object_members kvs) @ 0x7D # r) =
        parse_from (after_value (JObject (put_all [] (to_json_members kvs))) fs) r"
    by (rule parse_all_members) (rule elem)
  moreover have "put_all [] (to_json_members kvs) = to_json_members kvs"
    using JObject.prems(1) by (simp add: put_all_to_json_members)
  moreover have "t = 0x7B # join (object_members kvs) @ [0x7D]"
    using JObject.prems(2) by simp
  ultimately show ?case by (simp add: parse_from_char)
qed

text \<open>
  The text of a value parses to the JSON image of the value.
\<close>

lemma JSON_parse_stringify:
  assumes "js_value v" and "SerializeJSONProperty v = Some t"
  shows "JSON_parse t = Inr (to_json v)"
  using parse_value [OF assms delim_simps(1), of "[]"]
  by (simp add: JSON_parse_parse_from parse_from_Nil)

subsection \<open>The request body\<close>

lemma known_getblock: "isKnownMethod (js ''getblock'')"
  by (simp add: isKnownMethod_def RPC_get_def RPC_def js_eq_iff)

lemma precedes_names: "array_index a = None \<Longrightarrow> array_index b = None \<Longrightarrow> precedes a b"
  by (simp add: precedes_def)

lemma request_names:
  "array_index (js ''jsonrpc'') = None" "array_index (js ''id'') = None"
  "array_index (js ''method'') = None" "array_index (js ''params'') = None"
  by (simp_all add: array_index_def js_def is_digit_def)

lemma js_value_request:
  "js_values args \<Longrightarrow>
   js_value (JObject [(js ''jsonrpc'', JString (js ''1.0'')), (js ''id'', JString (js ''curltest'')),
                      (js ''method'', JString m), (js ''params'', JArray args)])"
  by (simp add: js_eq_iff precedes_names request_names)

text \<open>
  C4, as stated: the array \<open>params\<close> of the request body equals \<open>args\<close> element for
  element, with no argument coerced. The wrapper \<open>getblock(blockHash, verbosity = 1)\<close>
  called without arguments passes \<open>[undefined, 1]\<close>: \<open>undefined\<close> is not the last
  argument, and the body holds \<open>"params":[null,1]\<close>.
\<close>

theorem undefined_argument_is_null:
  \<open>map body
     (requests (send \<lparr>RPC_HOST = js ''127.0.0.1'', RPC_PORT = 8332, RPC_USER = js ''user'',
                       RPC_PASSWORD = js ''pw''\<rparr>
        (js ''getblock'') (Some [JUndefined, JNumber 1])
        \<lparr>statusCode = 200, chunks = [js ''{"result": 42, "error": null}'']\<rparr>)) =
   [js ''{"jsonrpc":"1.0","id":"curltest","method":"getblock","params":[null,1]}''] \<and>
   JSON_parse (js ''{"jsonrpc":"1.0","id":"curltest","method":"getblock","params":[null,1]}'') =
     Inr (JObject [(js ''jsonrpc'', JString (js ''1.0'')), (js ''id'', JString (js ''curltest'')),
                   (js ''method'', JString (js ''getblock'')),
                   (js ''params'', JArray [JNull, JNumber 1])]) \<and>
   JArray [JNull, JNumber 1] \<noteq> JArray [JUndefined, JNumber 1]\<close>
proof -
  have \<open>SerializeJSONObject
          [(js ''jsonrpc'', JString (js ''1.0'')), (js ''id'', JString (js ''curltest'')),
           (js ''method'', JString (js ''getblock'')),
           (js ''params'', JArray [JUndefined, JNumber 1])] =
        js ''{"jsonrpc":"1.0","id":"curltest","method":"getblock","params":[null,1]}''\<close>
    by (simp add: SerializeJSONObject_def QuoteJSONString_def quote_unit_def is_high_def
          is_low_def js_def Number_toString_1)
  moreover have \<open>JSON_parse (js ''{"jsonrpc":"1.0","id":"curltest","method":"getblock","params":[null,1]}'') =
    Inr (JObject [(js ''jsonrpc'', JString (js ''1.0'')), (js ''id'', JString (js ''curltest'')),
                  (js ''method'', JString (js ''getblock'')),
                  (js ''params'', JArray [JNull, JNumber 1])])\<close>
    by (simp add: json_eval)
  ultimately show ?thesis
    using known_getblock by (simp add: send_def Let_def)
qed

text \<open>
  C4, amended: for every known method and all arguments made of \<open>undefined\<close>, \<open>null\<close>,
  booleans, finite numbers, strings, arrays and objects, one request is sent, and its body
  is the text of a JSON object with exactly the properties \<open>jsonrpc\<close> (the string
  \<open>1.0\<close>), \<open>id\<close> (the string \<open>curltest\<close>), \<open>method\<close> (the method name) and \<open>params\<close>,
  an array of the length of \<open>args\<close> that holds the JSON image of each argument in
  order: \<open>undefined\<close> is \<open>null\<close> there, as an argument and as an element of an array, a
  property whose value is \<open>undefined\<close> is missing from its object, and nothing else is
  changed. Arguments in which \<open>undefined\<close> does not occur are in \<open>params\<close> unchanged.
\<close>

theorem request_body:
  assumes "isKnownMethod m" and "js_values args"
  shows "map (JSON_parse \<circ> body) (requests (send this m (Some args) res)) =
           [Inr (JObject [(js ''jsonrpc'', JString (js ''1.0'')),
                          (js ''id'', JString (js ''curltest'')),
                          (js ''method'', JString m),
                          (js ''params'', JArray (map to_json args))])] \<and>
         length (map to_json args) = length args \<and>
         (json_values args \<longrightarrow> map to_json args = args)"
proof -
  let ?request = "[(js ''jsonrpc'', JString (js ''1.0'')), (js ''id'', JString (js ''curltest'')),
                   (js ''method'', JString m), (js ''params'', JArray args)]"
  have "SerializeJSONProperty (JObject ?request) = Some (SerializeJSONObject ?request)"
    by (simp add: SerializeJSONObject_def)
  with js_value_request [OF assms(2)]
  have "JSON_parse (SerializeJSONObject ?request) = Inr (to_json (JObject ?request))"
    by (rule JSON_parse_stringify)
  then have "JSON_parse (SerializeJSONObject ?request) =
     Inr (JObject [(js ''jsonrpc'', JString (js ''1.0'')), (js ''id'', JString (js ''curltest'')),
                   (js ''method'', JString m), (js ''params'', JArray (map to_json args))])"
    by (simp add: to_json_items_map)
  then show ?thesis
    using assms(1) json_value_to_json(2) [of args]
    by (simp add: send_def Let_def to_json_items_map)
qed

theorem request_body_witness:
  "isKnownMethod (js ''getblockcount'') \<and>
   js_values [JString (js ''00ab''), JNumber (1 / 10), JUndefined, JNumber 2,
              JObject [(js ''1'', JBool True), (js ''conf_target'', JNumber (- 6)),
                       (js ''skip'', JUndefined)]] \<and>
   map (JSON_parse \<circ> body)
     (requests (send \<lparr>RPC_HOST = js ''127.0.0.1'', RPC_PORT = 8332, RPC_USER = js ''user'',
                       RPC_PASSWORD = js ''pw''\<rparr>
        (js ''getblockcount'')
        (Some [JString (js ''00ab''), JNumber (1 / 10), JUndefined, JNumber 2,
               JObject [(js ''1'', JBool True), (js ''conf_target'', JNumber (- 6)),
                        (js ''skip'', JUndefined)]])
        \<lparr>statusCode = 200, chunks = []\<rparr>)) =
   [Inr (JObject [(js ''jsonrpc'', JString (js ''1.0'')), (js ''id'', JString (js ''curltest'')),
                  (js ''method'', JString (js ''getblockcount'')),
                  (js ''params'',
                   JArray [JString (js ''00ab''), JNumber (1 / 10), JNull, JNumber 2,
                           JObject [(js ''1'', JBool True), (js ''conf_target'', JNumber (- 6))]])])]"
proof -
  have v: "js_values [JString (js ''00ab''), JNumber (1 / 10), JUndefined, JNumber 2,
              JObject [(js ''1'', JBool True), (js ''conf_target'', JNumber (- 6)),
                       (js ''skip'', JUndefined)]]"
    by (simp add: js_number_simps js_number_tenth precedes_def array_index_def js_def
          is_digit_def digits_val_def digit_val_def)
  show ?thesis
    using request_body [OF known_getblockcount v] known_getblockcount v
    by simp
qed

end
